theory Spec2Isabelle
  imports Complex_Main
begin

section \<open>Arrays, errors and the library calls the dynamics code relies on\<close>

text \<open>
  The source is \<^verbatim>\<open>roboticstoolbox/robot/Dynamics.py\<close>. Its floating-point numbers are
  modelled as real numbers (except in \<^verbatim>\<open>np.arange\<close>, where the rounding is explicit); a
  one-dimensional array is a list, a two-dimensional array is
  the number of its rows together with the list of its columns (so that \<^verbatim>\<open>a[:, i]\<close> is
  the \<open>i\<close>-th element of that list).
\<close>

type_synonym vec = "real list"

datatype error =
    ValueError string
  | IndexError string
  | RuntimeError string
  | LinAlgError string
  | KeyError string
  | ZeroDivisionError string

datatype ndarray = Vec vec | Mat nat "vec list"

definition ebind :: "error + 'a \<Rightarrow> ('a \<Rightarrow> error + 'b) \<Rightarrow> error + 'b" where
  "ebind x f = (case x of Inl e \<Rightarrow> Inl e | Inr v \<Rightarrow> f v)"

definition zeros :: "nat \<Rightarrow> vec" where
  "zeros k = replicate k 0"

definition ones :: "nat \<Rightarrow> vec" where
  "ones k = replicate k 1"

text \<open>Column \<open>j\<close> of \<^verbatim>\<open>np.eye(k)\<close>.\<close>
definition eye_col :: "nat \<Rightarrow> nat \<Rightarrow> vec" where
  "eye_col k j = map (\<lambda>i. if i = j then 1 else 0) [0..<k]"

definition eye :: "nat \<Rightarrow> vec list" where
  "eye k = map (eye_col k) [0..<k]"

definition vadd :: "vec \<Rightarrow> vec \<Rightarrow> vec" where
  "vadd a b = map2 (+) a b"

definition vsub :: "vec \<Rightarrow> vec \<Rightarrow> vec" where
  "vsub a b = map2 (-) a b"

definition smul :: "real \<Rightarrow> vec \<Rightarrow> vec" where
  "smul c a = map (\<lambda>x. x * c) a"

text \<open>
  \<^verbatim>\<open>A @ v\<close> for a matrix with \<open>r\<close> rows given by its columns: the sum of the columns
  weighted by the entries of \<open>v\<close>.
\<close>
fun matvec :: "nat \<Rightarrow> vec list \<Rightarrow> vec \<Rightarrow> vec" where
  "matvec r (c # cs) (x # xs) = vadd (smul x c) (matvec r cs xs)"
| "matvec r _ _ = zeros r"

text \<open>\<^verbatim>\<open>A @ B\<close>, column by column.\<close>
definition matmul :: "nat \<Rightarrow> vec list \<Rightarrow> vec list \<Rightarrow> vec list" where
  "matmul r A B = map (matvec r A) B"

text \<open>
  \<^verbatim>\<open>getvector(v, dim, 'col')\<close> of spatialmath: an array of shape \<open>(dim,)\<close>, \<open>(1, dim)\<close> or
  \<open>(dim, 1)\<close> is flattened, anything else raises \<^verbatim>\<open>ValueError\<close>.
\<close>
fun getvector :: "ndarray \<Rightarrow> nat \<Rightarrow> error + vec" where
  "getvector (Vec v) d =
     (if length v = d then Inr v else Inl (ValueError ''incorrect vector length''))"
| "getvector (Mat r cs) d =
     (if (r = 1 \<and> length cs = d) \<or> (r = d \<and> length cs = 1) then Inr (concat cs)
      else Inl (ValueError ''incorrect vector length''))"

text \<open>\<^verbatim>\<open>a.shape[1]\<close>: a one-dimensional array has no second axis.\<close>
fun shape1 :: "ndarray \<Rightarrow> error + nat" where
  "shape1 (Vec v) = Inl (IndexError ''tuple index out of range'')"
| "shape1 (Mat r cs) = Inr (length cs)"

text \<open>\<^verbatim>\<open>verifymatrix(m, (r, c))\<close> of spatialmath; it returns the columns here.\<close>
fun verifymatrix :: "ndarray \<Rightarrow> nat \<times> nat \<Rightarrow> error + vec list" where
  "verifymatrix (Vec v) s = Inl (ValueError ''incorrect matrix dimensions'')"
| "verifymatrix (Mat r cs) s =
     (if (r, length cs) = s then Inr cs else Inl (ValueError ''incorrect matrix dimensions''))"

section \<open>The robot and its inverse-dynamics oracle\<close>

record link =
  link_m :: real
  link_r :: vec
  link_I :: "vec list"
  link_Jm :: real
  link_G :: real
  link_B :: real
  link_Tc :: "real \<times> real"

record robot =
  name :: string
  links :: "link list"
  gravity :: vec
  robot_q :: vec

text \<open>\<^verbatim>\<open>self.n\<close>, the number of joints.\<close>
definition n_of :: "robot \<Rightarrow> nat" where
  "n_of rob = length (links rob)"

text \<open>
  The oracle \<^verbatim>\<open>rne(q, qd, qdd, grav)\<close> is not part of this file of the repository; it is a
  parameter of every function below, applied to the robot it is a method of.
\<close>
type_synonym rne_fun = "robot \<Rightarrow> vec \<Rightarrow> vec \<Rightarrow> vec \<Rightarrow> vec \<Rightarrow> vec"

text \<open>
  Modelled from the spec: the batched call of \<^verbatim>\<open>rne\<close>, whose code is not in this file.
  The inputs are matrices whose columns are the samples, and the result has one torque
  column per sample.
\<close>
definition rne_batch :: "rne_fun \<Rightarrow> robot \<Rightarrow> vec list \<Rightarrow> vec list \<Rightarrow> vec list \<Rightarrow> vec \<Rightarrow> vec list" where
  "rne_batch rne rob Q QD QDD g = map (\<lambda>(a, b, c). rne rob a b c g) (zip Q (zip QD QDD))"

section \<open>Joint-space inertia and inertia torque\<close>

text \<open>The body of the loop of \<^verbatim>\<open>inertia\<close> for one configuration \<^verbatim>\<open>q[:, i]\<close>.\<close>
definition inertia_at :: "rne_fun \<Rightarrow> robot \<Rightarrow> vec \<Rightarrow> vec list" where
  "inertia_at rne rob qi =
     (let n = n_of rob in
      rne_batch rne rob (matmul n [qi] (map (\<lambda>x. [x]) (ones n)))
        (replicate n (zeros n)) (eye n) [0, 0, 0])"

text \<open>\<^verbatim>\<open>for i in range(trajn): A[..., i] = f(i)\<close> on an array of \<open>trajn\<close> zero planes.\<close>
definition fill_planes :: "'a \<Rightarrow> nat \<Rightarrow> (nat \<Rightarrow> 'a) \<Rightarrow> 'a list" where
  "fill_planes z trajn f = fold (\<lambda>i A. A[i := f i]) [0..<trajn] (replicate trajn z)"

datatype result3 = Plane "vec list" | Planes "vec list list"

definition inertia :: "rne_fun \<Rightarrow> robot \<Rightarrow> ndarray \<Rightarrow> error + result3" where
  "inertia rne rob q =
     (let n = n_of rob in
      ebind (case getvector q n of
               Inr qv \<Rightarrow> Inr [qv]
             | Inl e \<Rightarrow> ebind (shape1 q) (\<lambda>trajn. verifymatrix q (n, trajn)))
        (\<lambda>qs. let trajn = length qs;
                   In = fill_planes (replicate n (zeros n)) trajn (\<lambda>i. inertia_at rne rob (qs ! i))
               in if trajn = 1 then Inr (Plane (In ! 0)) else Inr (Planes In)))"

definition itorque :: "rne_fun \<Rightarrow> robot \<Rightarrow> ndarray \<Rightarrow> ndarray \<Rightarrow> error + ndarray" where
  "itorque rne rob q qdd =
     (let n = n_of rob in
      ebind (case getvector q n of
               Inr qv \<Rightarrow>
                 (case getvector qdd n of
                    Inr av \<Rightarrow> Inr ([qv], [av])
                  | Inl e \<Rightarrow> ebind (verifymatrix (Mat n [qv]) (n, 1)) (\<lambda>qs.
                             ebind (verifymatrix qdd (n, 1)) (\<lambda>acs. Inr (qs, acs))))
             | Inl e \<Rightarrow> ebind (shape1 q) (\<lambda>trajn.
                        ebind (verifymatrix q (n, trajn)) (\<lambda>qs.
                        ebind (verifymatrix qdd (n, trajn)) (\<lambda>acs. Inr (qs, acs)))))
        (\<lambda>(qs, acs). let trajn = length qs;
                   taui = fill_planes (zeros n) trajn
                            (\<lambda>i. rne rob (qs ! i) (zeros n) (acs ! i) [0, 0, 0])
               in if trajn = 1 then Inr (Vec (taui ! 0)) else Inr (Mat n taui)))"

section \<open>Forward dynamics: \<^verbatim>\<open>accel\<close>\<close>

text \<open>
  \<^verbatim>\<open>np.linalg.inv\<close> is a parameter \<open>linalg_inv\<close> of the model: it returns the inverse or
  raises \<^verbatim>\<open>LinAlgError\<close>.
\<close>
type_synonym inv_fun = "vec list \<Rightarrow> error + vec list"

text \<open>The body of the loop of \<^verbatim>\<open>accel\<close> for column \<open>i\<close>.\<close>
definition accel_col :: "rne_fun \<Rightarrow> inv_fun \<Rightarrow> robot \<Rightarrow> vec \<Rightarrow> vec \<Rightarrow> vec \<Rightarrow> error + vec" where
  "accel_col rne linalg_inv rob qi qdi ti =
     (let n = n_of rob;
          qI = matmul n [qi] (map (\<lambda>x. [x]) (ones n));
          qdI = replicate n (zeros n);
          qddI = eye n;
          m = rne_batch rne rob qI qdI qddI [0, 0, 0];
          tau = rne rob qi qdi (zeros n) (gravity rob);
          inter = [vsub ti tau]
      in ebind (linalg_inv m) (\<lambda>mi. Inr (concat (matmul n mi inter))))"

text \<open>
  \<^verbatim>\<open>for i in ...: A[:, i] = f(i)\<close> where \<open>f\<close> may raise: the first error ends the loop.
\<close>
fun for_cols :: "(nat \<Rightarrow> error + 'a) \<Rightarrow> nat list \<Rightarrow> 'a list \<Rightarrow> error + 'a list" where
  "for_cols f [] A = Inr A"
| "for_cols f (i # js) A = ebind (f i) (\<lambda>v. for_cols f js (A[i := v]))"

definition accel_batch :: "rne_fun \<Rightarrow> inv_fun \<Rightarrow> robot \<Rightarrow> ndarray \<Rightarrow> ndarray \<Rightarrow> ndarray \<Rightarrow>
    error + (vec list \<times> vec list \<times> vec list)" where
  "accel_batch rne linalg_inv rob q qd torque =
     (let n = n_of rob in
      ebind (shape1 q) (\<lambda>trajn.
      ebind (verifymatrix q (n, trajn)) (\<lambda>qs.
      ebind (verifymatrix qd (n, trajn)) (\<lambda>qds.
      ebind (verifymatrix torque (n, trajn)) (\<lambda>ts. Inr (qs, qds, ts))))))"

definition accel :: "rne_fun \<Rightarrow> inv_fun \<Rightarrow> robot \<Rightarrow> ndarray \<Rightarrow> ndarray \<Rightarrow> ndarray \<Rightarrow> error + ndarray" where
  "accel rne linalg_inv rob q qd torque =
     (let n = n_of rob in
      ebind (case getvector q n of
               Inr qv \<Rightarrow>
                 (case getvector qd n of
                    Inr qdv \<Rightarrow>
                      (case getvector torque n of
                         Inr tv \<Rightarrow> Inr ([qv], [qdv], [tv])
                       | Inl e \<Rightarrow> accel_batch rne linalg_inv rob (Mat n [qv]) (Mat n [qdv]) torque)
                  | Inl e \<Rightarrow> accel_batch rne linalg_inv rob (Mat n [qv]) qd torque)
             | Inl e \<Rightarrow> accel_batch rne linalg_inv rob q qd torque)
        (\<lambda>(qs, qds, ts).
           let trajn = length qs in
           ebind (for_cols (\<lambda>i. accel_col rne linalg_inv rob (qs ! i) (qds ! i) (ts ! i))
                    [0..<trajn] (replicate trajn (zeros n)))
             (\<lambda>qdd. if trajn = 1 then Inr (Vec (qdd ! 0)) else Inr (Mat n qdd))))"

text \<open>
  The statement of the spec for one configuration: the mass matrix has the torque of the
  unit acceleration of joint \<open>j\<close> as its column \<open>j\<close>, the bias torque is one oracle call
  with zero acceleration and the robot's gravity, and the result is
  \<open>M\<^sup>-\<^sup>1 (\<tau> - \<tau>\<^sub>b\<^sub>i\<^sub>a\<^sub>s)\<close>.
\<close>
definition mass_matrix_spec :: "rne_fun \<Rightarrow> robot \<Rightarrow> vec \<Rightarrow> vec list" where
  "mass_matrix_spec rne rob q =
     map (\<lambda>j. rne rob q (zeros (n_of rob)) (eye_col (n_of rob) j) [0, 0, 0]) [0..<n_of rob]"

definition accel_spec :: "rne_fun \<Rightarrow> inv_fun \<Rightarrow> robot \<Rightarrow> vec \<Rightarrow> vec \<Rightarrow> vec \<Rightarrow> error + vec" where
  "accel_spec rne linalg_inv rob q qd tau =
     (case linalg_inv (mass_matrix_spec rne rob q) of
        Inl e \<Rightarrow> Inl e
      | Inr Mi \<Rightarrow>
          Inr (matvec (n_of rob) Mi (vsub tau (rne rob q qd (zeros (n_of rob)) (gravity rob)))))"

text \<open>The results of a list of computations in order, or the first error among them.\<close>
fun collect :: "(error + 'a) list \<Rightarrow> error + 'a list" where
  "collect [] = Inr []"
| "collect (x # xs) = ebind x (\<lambda>v. ebind (collect xs) (\<lambda>vs. Inr (v # vs)))"

text \<open>The oracle is linear in the acceleration (at fixed position, velocity and gravity).\<close>
definition linear_in_qdd :: "nat \<Rightarrow> (vec \<Rightarrow> vec) \<Rightarrow> bool" where
  "linear_in_qdd n f \<longleftrightarrow>
     (\<forall>a. length a = n \<longrightarrow> length (f a) = n) \<and>
     (\<forall>a b. length a = n \<and> length b = n \<longrightarrow> f (vadd a b) = vadd (f a) (f b)) \<and>
     (\<forall>c a. length a = n \<longrightarrow> f (smul c a) = smul c (f a))"

section \<open>Friction-free copies and the Coriolis matrix\<close>

text \<open>
  Modelled from the spec: \<^verbatim>\<open>Link.nofriction(coulomb, viscous)\<close>, which is not in this file of
  the repository, returns a link with the selected friction coefficients zeroed and all
  other parameters identical.
\<close>
definition link_nofriction :: "bool \<Rightarrow> bool \<Rightarrow> link \<Rightarrow> link" where
  "link_nofriction coulomb viscous l =
     (let l1 = (if viscous then l\<lparr>link_B := 0\<rparr> else l)
      in if coulomb then l1\<lparr>link_Tc := (0, 0)\<rparr> else l1)"

text \<open>\<^verbatim>\<open>nofriction\<close> on the values of the fields (the object identities are treated below).\<close>
definition nofriction :: "robot \<Rightarrow> bool \<Rightarrow> bool \<Rightarrow> robot" where
  "nofriction rob coulomb viscous =
     rob\<lparr>name := ''NF/'' @ name rob,
         links := map (link_nofriction coulomb viscous) (links rob)\<rparr>"











section \<open>Payload capacity: \<^verbatim>\<open>gravload\<close>, \<^verbatim>\<open>pay\<close> and \<^verbatim>\<open>paycap\<close>\<close>

text \<open>
  \<^verbatim>\<open>paycap\<close> divides by numbers that may be zero and then compares with \<^verbatim>\<open>np.NINF\<close>, so
  its numbers are modelled with the two infinities and NaN of IEEE arithmetic next to
  the reals. The sign of a zero is not modelled: a zero is \<open>Fin 0\<close>, and a nonzero number
  divided by it is the infinity with the sign of the numerator.
\<close>
datatype fl = Fin real | PInf | NInf | NaN

fun fneg :: "fl \<Rightarrow> fl" where
  "fneg (Fin a) = Fin (- a)"
| "fneg PInf = NInf"
| "fneg NInf = PInf"
| "fneg NaN = NaN"

fun fadd :: "fl \<Rightarrow> fl \<Rightarrow> fl" where
  "fadd NaN _ = NaN"
| "fadd _ NaN = NaN"
| "fadd (Fin a) (Fin b) = Fin (a + b)"
| "fadd PInf NInf = NaN"
| "fadd NInf PInf = NaN"
| "fadd PInf _ = PInf"
| "fadd _ PInf = PInf"
| "fadd NInf _ = NInf"
| "fadd _ NInf = NInf"

definition fsub :: "fl \<Rightarrow> fl \<Rightarrow> fl" where
  "fsub a b = fadd a (fneg b)"

text \<open>The sign of a number that is not NaN: negative, zero or positive.\<close>
fun fsgn :: "fl \<Rightarrow> int" where
  "fsgn (Fin a) = (if a < 0 then - 1 else if a = 0 then 0 else 1)"
| "fsgn PInf = 1"
| "fsgn NInf = - 1"
| "fsgn NaN = 0"

definition inf_of_sign :: "int \<Rightarrow> fl" where
  "inf_of_sign s = (if s < 0 then NInf else if s = 0 then NaN else PInf)"

fun fmul :: "fl \<Rightarrow> fl \<Rightarrow> fl" where
  "fmul NaN _ = NaN"
| "fmul _ NaN = NaN"
| "fmul (Fin a) (Fin b) = Fin (a * b)"
| "fmul a b = inf_of_sign (fsgn a * fsgn b)"

fun fdiv :: "fl \<Rightarrow> fl \<Rightarrow> fl" where
  "fdiv NaN _ = NaN"
| "fdiv _ NaN = NaN"
| "fdiv (Fin a) (Fin b) = (if b = 0 then inf_of_sign (fsgn (Fin a)) else Fin (a / b))"
| "fdiv (Fin a) _ = Fin 0"
| "fdiv a (Fin b) = inf_of_sign (fsgn a * (if b < 0 then - 1 else 1))"
| "fdiv _ _ = NaN"

fun flt :: "fl \<Rightarrow> fl \<Rightarrow> bool" where
  "flt NaN _ = False"
| "flt _ NaN = False"
| "flt (Fin a) (Fin b) = (a < b)"
| "flt NInf b = (b \<noteq> NInf)"
| "flt a PInf = (a \<noteq> PInf)"
| "flt _ _ = False"

fun fle :: "fl \<Rightarrow> fl \<Rightarrow> bool" where
  "fle NaN _ = False"
| "fle _ NaN = False"
| "fle a b = (a = b \<or> flt a b)"

text \<open>\<^verbatim>\<open>np.linalg.norm\<close> of a vector.\<close>
definition norm2 :: "vec \<Rightarrow> real" where
  "norm2 w = sqrt (sum_list (map (\<lambda>x. x * x) w))"

text \<open>
  \<^verbatim>\<open>np.argmin\<close>: the first index of a NaN if there is one, otherwise the first index of
  the minimum; an empty array raises.
\<close>
fun argmin_from :: "nat \<Rightarrow> fl \<Rightarrow> nat \<Rightarrow> fl list \<Rightarrow> nat" where
  "argmin_from bi bv i [] = bi"
| "argmin_from bi bv i (x # xs) =
     (if bv = NaN then bi
      else if x = NaN then i
      else if flt x bv then argmin_from i x (i + 1) xs
      else argmin_from bi bv (i + 1) xs)"

fun argmin :: "fl list \<Rightarrow> error + nat" where
  "argmin [] = Inl (ValueError ''attempt to get argmin of an empty sequence'')"
| "argmin (x # xs) = Inr (argmin_from 0 x 1 xs)"

text \<open>
  The call \<^verbatim>\<open>self.gravload(q[:, i])\<close> of \<^verbatim>\<open>paycap\<close>: one configuration and the robot's own
  gravity, which has to be a vector of length 3. A configuration of another length makes
  \<^verbatim>\<open>getvector\<close> raise, and the handler's \<^verbatim>\<open>q.shape[1]\<close> raises in turn.
\<close>
definition gravload :: "rne_fun \<Rightarrow> robot \<Rightarrow> vec \<Rightarrow> error + vec" where
  "gravload rne rob qi =
     (let n = n_of rob in
      ebind (getvector (Vec (gravity rob)) 3) (\<lambda>grav.
      ebind (case getvector (Vec qi) n of
               Inr q \<Rightarrow> Inr q
             | Inl e \<Rightarrow> ebind (shape1 (Vec qi)) (\<lambda>trajn. Inl e)) (\<lambda>q.
        Inr (rne rob q (zeros n) (zeros n) grav))))"

text \<open>
  The Jacobians \<^verbatim>\<open>jacobe\<close> and \<^verbatim>\<open>jacob0\<close> belong to the kinematic model, which is not in
  this file: they are a parameter, selected by the truth value of \<^verbatim>\<open>frame\<close>, returning the
  \<open>n\<close> columns (of length 6) of the Jacobian.
\<close>
type_synonym jac_fun = "bool \<Rightarrow> robot \<Rightarrow> vec \<Rightarrow> vec list"

definition fdot :: "fl list \<Rightarrow> fl list \<Rightarrow> fl" where
  "fdot a b = foldl fadd (Fin 0) (map2 fmul a b)"

text \<open>
  The call \<^verbatim>\<open>self.pay(W, q=q, frame=frame)\<close> of \<^verbatim>\<open>paycap\<close>: a single wrench, no Jacobian
  given; \<^verbatim>\<open>tau = -J.T @ W\<close>.
\<close>
definition pay :: "jac_fun \<Rightarrow> robot \<Rightarrow> fl list \<Rightarrow> vec \<Rightarrow> bool \<Rightarrow> error + fl list" where
  "pay jac rob W q frame =
     (if length W \<noteq> 6 then Inl (IndexError ''tuple index out of range'')
      else ebind (getvector (Vec q) (n_of rob)) (\<lambda>q.
           let J = (if frame then jac True rob q else jac False rob q)
           in Inr (map (\<lambda>col. fdot (map (\<lambda>x. Fin (- x)) col) W) J)))"

text \<open>
  \<^verbatim>\<open>wmax[:, i] = WM\<close>: an array of shape \<open>(n,)\<close> is stored into a column of length 6, which
  numpy allows for \<open>n = 6\<close> and, by broadcasting, for \<open>n = 1\<close>.
\<close>
definition store_col6 :: "fl list \<Rightarrow> error + fl list" where
  "store_col6 WM =
     (if length WM = 6 then Inr WM
      else if length WM = 1 then Inr (replicate 6 (WM ! 0))
      else Inl (ValueError ''could not broadcast input array into shape (6,)''))"

text \<open>The masked assignments to \<^verbatim>\<open>WM\<close>, entry \<open>c\<close>; an entry in neither mask stays zero.\<close>
definition wm_entry :: "vec \<Rightarrow> vec \<Rightarrow> vec \<Rightarrow> fl list \<Rightarrow> nat \<Rightarrow> fl" where
  "wm_entry TAUM TAUm tauB tauP c =
     (if flt (Fin 0) (tauP ! c) then fdiv (Fin (TAUM ! c - tauB ! c)) (tauP ! c)
      else if fle (tauP ! c) (Fin 0) then fdiv (Fin (TAUm ! c - tauB ! c)) (tauP ! c)
      else Fin 0)"

text \<open>The per-unit-wrench joint torque \<^verbatim>\<open>tauP\<close> of the loop body.\<close>
definition unit_torque :: "jac_fun \<Rightarrow> robot \<Rightarrow> vec \<Rightarrow> vec \<Rightarrow> bool \<Rightarrow> error + fl list" where
  "unit_torque jac rob wi qi frame =
     pay jac rob (map (\<lambda>x. fdiv (Fin x) (Fin (norm2 wi))) wi) qi frame"

text \<open>The vector \<^verbatim>\<open>WM\<close> of the loop body after the clamp of \<open>-inf\<close>.\<close>
definition headroom :: "nat \<Rightarrow> vec list \<Rightarrow> vec \<Rightarrow> fl list \<Rightarrow> fl list" where
  "headroom n tauR tauB tauP =
     (let TAUM = map (\<lambda>c. tauR ! 0 ! c) [0..<n];
          TAUm = map (\<lambda>c. tauR ! 1 ! c) [0..<n];
          WM = map (wm_entry TAUM TAUm tauB tauP) [0..<n]
      in map (\<lambda>x. if x = NInf then PInf else x) WM)"

text \<open>The body of the loop of \<^verbatim>\<open>paycap\<close> for column \<open>i\<close>.\<close>
definition paycap_col :: "rne_fun \<Rightarrow> jac_fun \<Rightarrow> robot \<Rightarrow> vec list \<Rightarrow> bool \<Rightarrow> vec \<Rightarrow> vec \<Rightarrow>
    error + (fl list \<times> nat)" where
  "paycap_col rne jac rob tauR frame qi wi =
     ebind (gravload rne rob qi) (\<lambda>tauB.
     ebind (unit_torque jac rob wi qi frame) (\<lambda>tauP.
       let WM = headroom (n_of rob) tauR tauB tauP in
       ebind (store_col6 WM) (\<lambda>col.
       ebind (argmin WM) (\<lambda>joint. Inr (col, joint)))))"

datatype paycap_result = Single "fl list" nat | Batch "fl list list" "nat list"

definition paycap :: "rne_fun \<Rightarrow> jac_fun \<Rightarrow> robot \<Rightarrow> ndarray \<Rightarrow> ndarray \<Rightarrow> bool \<Rightarrow> ndarray \<Rightarrow>
    error + paycap_result" where
  "paycap rne jac rob w tauR frame q =
     (let n = n_of rob in
      ebind (case getvector q n of
               Inr qv \<Rightarrow>
                 (case getvector w 6 of
                    Inr wv \<Rightarrow> Inr ([qv], [wv])
                  | Inl e \<Rightarrow> ebind (verifymatrix (Mat n [qv]) (n, 1)) (\<lambda>qs.
                             ebind (verifymatrix w (6, 1)) (\<lambda>ws. Inr (qs, ws))))
             | Inl e \<Rightarrow> ebind (shape1 q) (\<lambda>trajn.
                        ebind (verifymatrix q (n, trajn)) (\<lambda>qs.
                        ebind (verifymatrix w (6, trajn)) (\<lambda>ws. Inr (qs, ws)))))
        (\<lambda>(qs, ws).
           ebind (verifymatrix tauR (n, 2)) (\<lambda>tauRc.
           let trajn = length qs in
           ebind (for_cols (\<lambda>i. paycap_col rne jac rob tauRc frame (qs ! i) (ws ! i))
                    [0..<trajn] (replicate trajn (replicate 6 (Fin 0), 0)))
             (\<lambda>res. if trajn = 1 then Inr (Single (fst (res ! 0)) (snd (res ! 0)))
                     else Inr (Batch (map fst res) (map snd res))))))"

section \<open>Forward-dynamics integration: \<^verbatim>\<open>fdyn\<close>\<close>

text \<open>
  The integrators of \<^verbatim>\<open>scipy.integrate\<close> are a parameter of the model. An integrator calls
  the derivative function it was given; such a computation is a tree whose nodes are the
  calls \<open>fun(t, y)\<close> and whose leaves are the results. Running it with a derivative
  function that raises ends it with that error, as an exception raised in the callback
  leaves the integrator.
\<close>
datatype 'r prog = Return 'r | Call real vec "vec \<Rightarrow> 'r prog"

primrec run :: "(real \<Rightarrow> vec \<Rightarrow> error + vec) \<Rightarrow> 'r prog \<Rightarrow> error + 'r" where
  "run f (Return r) = Inr r"
| "run f (Call t y k) = (case f t y of Inl e \<Rightarrow> Inl e | Inr d \<Rightarrow> run f (k d))"

text \<open>\<open>calls f p t y\<close>: the computation \<open>p\<close>, run with \<open>f\<close>, gets as far as the call \<open>fun(t, y)\<close>.\<close>
inductive calls :: "(real \<Rightarrow> vec \<Rightarrow> error + vec) \<Rightarrow> 'r prog \<Rightarrow> real \<Rightarrow> vec \<Rightarrow> bool" where
  calls_here: "calls f (Call t y k) t y"
| calls_later: "f t y = Inr d \<Longrightarrow> calls f (k d) t' y' \<Longrightarrow> calls f (Call t y k) t' y'"

datatype status = Running | Finished | Failed

text \<open>
  An integrator object: its constructor \<open>(fun, t0, y0, t_bound)\<close>, its method \<^verbatim>\<open>step()\<close> and
  its attributes \<^verbatim>\<open>status\<close>, \<^verbatim>\<open>t\<close> and \<^verbatim>\<open>y\<close>, over a type \<open>'s\<close> of internal states.
\<close>
record 's integrator =
  solver_init :: "real \<Rightarrow> vec \<Rightarrow> real \<Rightarrow> 's prog"
  solver_step :: "'s \<Rightarrow> 's prog"
  solver_status :: "'s \<Rightarrow> status"
  solver_t :: "'s \<Rightarrow> real"
  solver_y :: "'s \<Rightarrow> vec"

text \<open>
  The argument \<^verbatim>\<open>torqfun\<close>: absent, not callable, or a function of the robot, the time and
  the state (the keyword arguments \<^verbatim>\<open>targs\<close> are part of the function). The torque it
  returns may have complex entries, which \<^verbatim>\<open>np.isreal\<close> tests.
\<close>
datatype torque_arg =
    NoTorque
  | NotCallable
  | TorqueFun "robot \<Rightarrow> real \<Rightarrow> vec \<Rightarrow> vec \<Rightarrow> complex list"

definition isreal :: "complex \<Rightarrow> bool" where
  "isreal z \<longleftrightarrow> Im z = 0"

definition torque_error :: error where
  "torque_error = RuntimeError ''torque function must return vector with N real elements''"

definition failed_error :: error where
  "failed_error = RuntimeError ''integration completed with failed status ''"

text \<open>\<^verbatim>\<open>_fdyn\<close>: the derivative \<open>[qd, qdd]\<close> of the state \<open>x = [q, qd]\<close>.\<close>
definition fdyn_deriv :: "rne_fun \<Rightarrow> inv_fun \<Rightarrow> robot \<Rightarrow> real \<Rightarrow> vec \<Rightarrow> torque_arg \<Rightarrow> error + vec" where
  "fdyn_deriv rne linalg_inv rob t x torqfun =
     (let n = n_of rob;
          q = take n x;
          qd = drop n x
      in ebind (case torqfun of
                  TorqueFun tf \<Rightarrow>
                    (let tau = tf rob t q qd
                     in if length tau \<noteq> n \<or> \<not> list_all isreal tau then Inl torque_error
                        else Inr (map Re tau))
                | _ \<Rightarrow> Inr (zeros n))
           (\<lambda>tau.
              ebind (accel rne linalg_inv rob (Vec q) (Vec qd) (Vec tau)) (\<lambda>qdd.
                case qdd of
                  Vec a \<Rightarrow> Inr (qd @ a)
                | Mat r cs \<Rightarrow> Inl (ValueError ''all the input arrays must have same number of dimensions''))))"

text \<open>
  The \<^verbatim>\<open>while\<close> loop of \<^verbatim>\<open>fdyn\<close>. It ends when the integrator is no longer running; a
  run in which the integrator never leaves that status does not return (\<open>None\<close>).
\<close>
partial_function (option) fdyn_loop ::
  "'s integrator \<Rightarrow> (real \<Rightarrow> vec \<Rightarrow> error + vec) \<Rightarrow> 's \<Rightarrow> real list \<Rightarrow> vec list \<Rightarrow>
   (error + real list \<times> vec list) option" where
  "fdyn_loop integ f s tlist xlist =
     (if solver_status integ s = Running then
        (case run f (solver_step integ s) of
           Inl e \<Rightarrow> Some (Inl e)
         | Inr s' \<Rightarrow>
             if solver_status integ s' = Failed then Some (Inl failed_error)
             else fdyn_loop integ f s' (tlist @ [solver_t integ s']) (xlist @ [solver_y integ s']))
      else Some (Inr (tlist, xlist)))"

text \<open>The callback \<^verbatim>\<open>lambda t, y: self._fdyn(t, y, torqfun, targs)\<close> given to the integrator.\<close>
definition deriv_fun :: "rne_fun \<Rightarrow> inv_fun \<Rightarrow> robot \<Rightarrow> torque_arg \<Rightarrow> real \<Rightarrow> vec \<Rightarrow> error + vec" where
  "deriv_fun rne linalg_inv rob torqfun = (\<lambda>t y. fdyn_deriv rne linalg_inv rob t y torqfun)"

text \<open>
  \<^verbatim>\<open>fdyn\<close> before its loop: the checks of the arguments, the lookup of the integrator by
  name and its construction on the initial state \<open>x0 = [q0, qd0]\<close>. \<open>T\<close> is a real number
  here, so the test \<^verbatim>\<open>isscalar(T)\<close> succeeds; the progress bar is off.
\<close>
definition fdyn_setup ::
  "(string \<Rightarrow> 's integrator option) \<Rightarrow> rne_fun \<Rightarrow> inv_fun \<Rightarrow> robot \<Rightarrow> real \<Rightarrow> ndarray \<Rightarrow>
   torque_arg \<Rightarrow> ndarray option \<Rightarrow> string \<Rightarrow> error + 's integrator \<times> 's \<times> vec" where
  "fdyn_setup solvers rne linalg_inv rob T q0 torqfun qd0 solver =
     (let n = n_of rob in
      ebind (getvector q0 n) (\<lambda>q0v.
      ebind (case qd0 of None \<Rightarrow> Inr (zeros n) | Some a \<Rightarrow> getvector a n) (\<lambda>qd0v.
        if (case torqfun of NotCallable \<Rightarrow> True | _ \<Rightarrow> False)
        then Inl (ValueError ''torque function must be callable'')
        else
          (let x0 = q0v @ qd0v in
           case solvers solver of
             None \<Rightarrow> Inl (KeyError solver)
           | Some integ \<Rightarrow>
               ebind (run (deriv_fun rne linalg_inv rob torqfun) (solver_init integ 0 x0 T))
                 (\<lambda>s. Inr (integ, s, q0v @ qd0v))))))"

text \<open>\<^verbatim>\<open>fdyn\<close> up to the end of its loop: the lists \<^verbatim>\<open>tlist\<close> and \<^verbatim>\<open>xlist\<close>.\<close>
definition fdyn_samples ::
  "(string \<Rightarrow> 's integrator option) \<Rightarrow> rne_fun \<Rightarrow> inv_fun \<Rightarrow> robot \<Rightarrow> real \<Rightarrow> ndarray \<Rightarrow>
   torque_arg \<Rightarrow> ndarray option \<Rightarrow> string \<Rightarrow> (error + real list \<times> vec list) option" where
  "fdyn_samples solvers rne linalg_inv rob T q0 torqfun qd0 solver =
     (case fdyn_setup solvers rne linalg_inv rob T q0 torqfun qd0 solver of
        Inl e \<Rightarrow> Some (Inl e)
      | Inr (integ, s, x0) \<Rightarrow>
          fdyn_loop integ (deriv_fun rne linalg_inv rob torqfun) s [0] [x0])"

text \<open>
  One iteration of the loop that neither raises nor ends it, and any number of them, on
  the integrator's state and the two lists.
\<close>
inductive loop_reaches ::
  "'s integrator \<Rightarrow> (real \<Rightarrow> vec \<Rightarrow> error + vec) \<Rightarrow> 's \<times> real list \<times> vec list \<Rightarrow>
   's \<times> real list \<times> vec list \<Rightarrow> bool" for integ f where
  reaches_start: "loop_reaches integ f c c"
| reaches_step:
    "loop_reaches integ f c (s, tlist, xlist) \<Longrightarrow> solver_status integ s = Running \<Longrightarrow>
     run f (solver_step integ s) = Inr s' \<Longrightarrow> solver_status integ s' \<noteq> Failed \<Longrightarrow>
     loop_reaches integ f c (s', tlist @ [solver_t integ s'], xlist @ [solver_y integ s'])"

text \<open>
  \<^verbatim>\<open>np.arange(start, stop, step)\<close> for floats. Its length and its values depend on the
  rounding of the floating-point operations, so the rounding \<open>rnd\<close> of an operation's
  exact result is a parameter here (the identity for exact arithmetic, \<open>rnd53\<close> below for
  doubles). As numpy does: \<open>next = start + step\<close>; the length is the ceiling of
  \<open>(stop - start) / step\<close>, a division by zero raising \<^verbatim>\<open>ZeroDivisionError\<close>; the values are
  \<open>start\<close>, \<open>next\<close> and then \<open>start + i * delta\<close> with \<open>delta = next - start\<close>.
\<close>
definition arange :: "(real \<Rightarrow> real) \<Rightarrow> real \<Rightarrow> real \<Rightarrow> real \<Rightarrow> error + real list" where
  "arange rnd start stop step =
     (if step = 0 then Inl (ZeroDivisionError ''float division by zero'')
      else
        (let next = rnd (start + step);
             len = \<lceil>rnd (rnd (stop - start) / step)\<rceil>;
             delta = rnd (next - start)
         in Inr (map (\<lambda>i. if i = 0 then start else if i = 1 then next
                            else rnd (start + rnd (real i * delta)))
                   [0..<nat len])))"

text \<open>
  Rounding to the nearest double, ties to even. \<open>ulp53 a\<close> is the spacing of the doubles
  around a number of magnitude \<open>a\<close>: the power of two \<open>u\<close> with \<open>2\<^sup>5\<^sup>2 u \<le> a < 2\<^sup>5\<^sup>3 u\<close>, found
  from \<open>u = 1\<close> by doubling or halving, and not below \<open>2\<^sup>-\<^sup>1\<^sup>0\<^sup>7\<^sup>4\<close>, the spacing of the
  subnormal numbers (the fuel). Overflow to infinity is not modelled.
\<close>
fun ulp_from :: "nat \<Rightarrow> real \<Rightarrow> real \<Rightarrow> real" where
  "ulp_from 0 a u = u"
| "ulp_from (Suc k) a u =
     (if 2 ^ 53 * u \<le> a then ulp_from k a (2 * u)
      else if a < 2 ^ 52 * u then ulp_from k a (u / 2)
      else u)"

definition ulp53 :: "real \<Rightarrow> real" where
  "ulp53 a = ulp_from 1074 a 1"

definition round_even :: "real \<Rightarrow> int" where
  "round_even y =
     (let f = \<lfloor>y\<rfloor> in
      if y - of_int f < 1 / 2 then f
      else if 1 / 2 < y - of_int f then f + 1
      else if even f then f else f + 1)"

definition rnd53 :: "real \<Rightarrow> real" where
  "rnd53 x = (let u = ulp53 \<bar>x\<bar> in of_int (round_even (x / u)) * u)"

text \<open>
  \<^verbatim>\<open>scipy.interpolate.interp1d(x, y, axis=0)\<close> applied to new abscissae, following the
  library: the samples are sorted by abscissa; a new abscissa outside their range raises;
  otherwise the segment is found by \<^verbatim>\<open>searchsorted\<close> (the first sample not below the new
  abscissa), clipped to \<open>1 .. len - 1\<close>, and the value is
  \<open>slope * (x_new - x_lo) + y_lo\<close>. (A segment of width zero gives NaN there and \<open>y_lo\<close>
  here.)
\<close>
definition searchsorted :: "real list \<Rightarrow> real \<Rightarrow> nat" where
  "searchsorted xs v = length (takeWhile (\<lambda>x. x < v) xs)"

definition interp_at :: "(real \<times> vec) list \<Rightarrow> real \<Rightarrow> error + vec" where
  "interp_at pts v =
     (let xs = map fst pts in
      if v < Min (set xs) then Inl (ValueError ''A value in x_new is below the interpolation range.'')
      else if Max (set xs) < v then Inl (ValueError ''A value in x_new is above the interpolation range.'')
      else
        (let hi = max 1 (min (length pts - 1) (searchsorted xs v));
             lo = hi - 1;
             slope = map2 (\<lambda>a b. (a - b) / (fst (pts ! hi) - fst (pts ! lo)))
                       (snd (pts ! hi)) (snd (pts ! lo))
         in Inr (map2 (\<lambda>s y. s * (v - fst (pts ! lo)) + y) slope (snd (pts ! lo)))))"

definition interp1d :: "real list \<Rightarrow> vec list \<Rightarrow> real list \<Rightarrow> error + vec list" where
  "interp1d tarray xarray tnew =
     (if length tarray \<noteq> length xarray
      then Inl (ValueError ''x and y arrays must be equal in length along interpolation axis.'')
      else if tarray = [] then Inl (ValueError ''x and y arrays must have at least 1 entry'')
      else collect (map (interp_at (sort_key fst (zip tarray xarray))) tnew))"

record trajectory =
  traj_t :: "real list"
  traj_q :: "vec list"
  traj_qd :: "vec list"

text \<open>
  \<^verbatim>\<open>fdyn\<close>: the samples of the loop as arrays (\<^verbatim>\<open>np.array(xlist)\<close> needs states of one
  length), resampled when \<^verbatim>\<open>dt\<close> is given; \<open>rnd\<close> is the rounding of the arithmetic of
  \<^verbatim>\<open>np.arange\<close>.
\<close>
definition fdyn ::
  "(real \<Rightarrow> real) \<Rightarrow> (string \<Rightarrow> 's integrator option) \<Rightarrow> rne_fun \<Rightarrow> inv_fun \<Rightarrow> robot \<Rightarrow> real \<Rightarrow>
   ndarray \<Rightarrow> torque_arg \<Rightarrow> ndarray option \<Rightarrow> string \<Rightarrow> real option \<Rightarrow>
   (error + trajectory) option" where
  "fdyn rnd solvers rne linalg_inv rob T q0 torqfun qd0 solver dt =
     (case fdyn_samples solvers rne linalg_inv rob T q0 torqfun qd0 solver of
        None \<Rightarrow> None
      | Some (Inl e) \<Rightarrow> Some (Inl e)
      | Some (Inr (tarray, xarray)) \<Rightarrow>
          (let n = n_of rob in
           if \<not> list_all (\<lambda>x. length x = length (hd xarray)) xarray
           then Some (Inl (ValueError ''setting an array element with a sequence''))
           else
             case dt of
               Some d \<Rightarrow>
                 Some (ebind (arange rnd 0 T d) (\<lambda>tnew.
                       ebind (interp1d tarray xarray tnew) (\<lambda>xnew.
                         Inr \<lparr>traj_t = tnew, traj_q = map (take n) xnew,
                              traj_qd = map (drop n) xnew\<rparr>)))
             | None \<Rightarrow>
                 Some (Inr \<lparr>traj_t = tarray, traj_q = map (take n) xarray,
                              traj_qd = map (drop n) xarray\<rparr>)))"

section \<open>Copies of the robot: \<^verbatim>\<open>nofriction\<close> and \<^verbatim>\<open>perterb\<close> on objects\<close>

text \<open>
  Whether a copy shares state with its source is a matter of object identity, so here the
  robots, the links and the arrays are objects in a store, named by addresses. A robot
  object holds its name, the list of the addresses of its links and the addresses of its
  gravity and joint-state arrays; a link object holds the link's parameters. Addresses
  are handed out in order, \<open>next_addr\<close> being the first one not yet used.
\<close>
type_synonym addr = nat

record robot_obj =
  ro_name :: string
  ro_links :: "addr list"
  ro_gravity :: addr
  ro_q :: addr

record store =
  robot_at :: "addr \<rightharpoonup> robot_obj"
  link_at :: "addr \<rightharpoonup> link"
  array_at :: "addr \<rightharpoonup> vec"
  next_addr :: addr

definition new_robot :: "robot_obj \<Rightarrow> store \<Rightarrow> addr \<times> store" where
  "new_robot ro st =
     (next_addr st, st\<lparr>robot_at := (robot_at st)(next_addr st \<mapsto> ro), next_addr := Suc (next_addr st)\<rparr>)"

definition new_link :: "link \<Rightarrow> store \<Rightarrow> addr \<times> store" where
  "new_link l st =
     (next_addr st, st\<lparr>link_at := (link_at st)(next_addr st \<mapsto> l), next_addr := Suc (next_addr st)\<rparr>)"

definition new_array :: "vec \<Rightarrow> store \<Rightarrow> addr \<times> store" where
  "new_array v st =
     (next_addr st, st\<lparr>array_at := (array_at st)(next_addr st \<mapsto> v), next_addr := Suc (next_addr st)\<rparr>)"

text \<open>
  Modelled from the spec: \<^verbatim>\<open>Link.nofriction(coulomb, viscous)\<close>, which is not in this file of
  the repository, returns a new link object, a copy of the link with the selected friction
  coefficients zeroed.
\<close>
definition link_nofriction_obj :: "bool \<Rightarrow> bool \<Rightarrow> addr \<Rightarrow> store \<Rightarrow> (addr \<times> store) option" where
  "link_nofriction_obj coulomb viscous a st =
     (case link_at st a of
        None \<Rightarrow> None
      | Some l \<Rightarrow> Some (new_link (link_nofriction coulomb viscous l) st))"

text \<open>\<^verbatim>\<open>[link.nofriction(coulomb, viscous) for link in self.links]\<close>.\<close>
fun nofriction_links :: "bool \<Rightarrow> bool \<Rightarrow> addr list \<Rightarrow> store \<Rightarrow> (addr list \<times> store) option" where
  "nofriction_links coulomb viscous [] st = Some ([], st)"
| "nofriction_links coulomb viscous (a # as) st =
     (case link_nofriction_obj coulomb viscous a st of
        None \<Rightarrow> None
      | Some (b, st1) \<Rightarrow>
          (case nofriction_links coulomb viscous as st1 of
             None \<Rightarrow> None
           | Some (bs, st2) \<Rightarrow> Some (b # bs, st2)))"

text \<open>
  \<^verbatim>\<open>nofriction\<close>: \<^verbatim>\<open>copy.copy(self)\<close> is a new robot object with the attributes of the
  source, so with the same addresses; then its name and its list of links are replaced.
\<close>
definition nofriction_obj :: "addr \<Rightarrow> bool \<Rightarrow> bool \<Rightarrow> store \<Rightarrow> (addr \<times> store) option" where
  "nofriction_obj self coulomb viscous st =
     (case robot_at st self of
        None \<Rightarrow> None
      | Some ro \<Rightarrow>
          (let (nf, st1) = new_robot ro st;
               st2 = st1\<lparr>robot_at := (robot_at st1)(nf \<mapsto> ro\<lparr>ro_name := ''NF/'' @ ro_name ro\<rparr>)\<rparr>
           in case nofriction_links coulomb viscous (ro_links ro) st2 of
                None \<Rightarrow> None
              | Some (bs, st3) \<Rightarrow>
                  (case robot_at st3 nf of
                     None \<Rightarrow> None
                   | Some nfo \<Rightarrow>
                       Some (nf, st3\<lparr>robot_at := (robot_at st3)(nf \<mapsto> nfo\<lparr>ro_links := bs\<rparr>)\<rparr>))))"

text \<open>
  Modelled from the spec: \<^verbatim>\<open>self._copy()\<close>, which is not in this file of the repository,
  creates a new robot with new links, a snapshot of the values of the source that aliases
  none of its objects.
\<close>
fun copy_links :: "addr list \<Rightarrow> store \<Rightarrow> (addr list \<times> store) option" where
  "copy_links [] st = Some ([], st)"
| "copy_links (a # as) st =
     (case link_at st a of
        None \<Rightarrow> None
      | Some l \<Rightarrow>
          (let (b, st1) = new_link l st
           in case copy_links as st1 of
                None \<Rightarrow> None
              | Some (bs, st2) \<Rightarrow> Some (b # bs, st2)))"

definition robot_copy :: "addr \<Rightarrow> store \<Rightarrow> (addr \<times> store) option" where
  "robot_copy self st =
     (case robot_at st self of
        None \<Rightarrow> None
      | Some ro \<Rightarrow>
          (case (array_at st (ro_gravity ro), array_at st (ro_q ro)) of
             (Some g, Some q) \<Rightarrow>
               (case copy_links (ro_links ro) st of
                  None \<Rightarrow> None
                | Some (bs, st1) \<Rightarrow>
                    (let (ga, st2) = new_array g st1;
                         (qa, st3) = new_array q st2
                     in Some (new_robot \<lparr>ro_name = ro_name ro, ro_links = bs, ro_gravity = ga,
                                          ro_q = qa\<rparr> st3)))
           | _ \<Rightarrow> None))"

text \<open>
  The body of the loop of \<^verbatim>\<open>perterb\<close> for link \<open>i\<close> of the copy \<open>r2\<close>: the mass and the
  inertia are each scaled by a factor drawn from \<^verbatim>\<open>np.random.random()\<close>, whose successive
  values are \<open>rand 0\<close>, \<open>rand 1\<close>, \<dots>
\<close>
definition perturb_link :: "(nat \<Rightarrow> real) \<Rightarrow> real \<Rightarrow> addr \<Rightarrow> nat \<Rightarrow> store \<Rightarrow> store option" where
  "perturb_link rand p r2 i st =
     (case robot_at st r2 of
        None \<Rightarrow> None
      | Some ro \<Rightarrow>
          if length (ro_links ro) \<le> i then None
          else
            (case link_at st (ro_links ro ! i) of
               None \<Rightarrow> None
             | Some l \<Rightarrow>
                 (let s = (2 * rand (2 * i) - 1) * p + 1;
                      l1 = l\<lparr>link_m := link_m l * s\<rparr>;
                      s' = (2 * rand (2 * i + 1) - 1) * p + 1;
                      l2 = l1\<lparr>link_I := map (map (\<lambda>x. x * s')) (link_I l1)\<rparr>
                  in Some (st\<lparr>link_at := (link_at st)(ro_links ro ! i \<mapsto> l2)\<rparr>))))"

fun perturb_loop :: "(nat \<Rightarrow> real) \<Rightarrow> real \<Rightarrow> addr \<Rightarrow> nat list \<Rightarrow> store \<Rightarrow> store option" where
  "perturb_loop rand p r2 [] st = Some st"
| "perturb_loop rand p r2 (i # js) st =
     (case perturb_link rand p r2 i st of
        None \<Rightarrow> None
      | Some st1 \<Rightarrow> perturb_loop rand p r2 js st1)"

definition perterb_obj :: "(nat \<Rightarrow> real) \<Rightarrow> addr \<Rightarrow> real \<Rightarrow> store \<Rightarrow> (addr \<times> store) option" where
  "perterb_obj rand self p st =
     (case robot_at st self of
        None \<Rightarrow> None
      | Some ro \<Rightarrow>
          (case robot_copy self st of
             None \<Rightarrow> None
           | Some (r2, st1) \<Rightarrow>
               (case robot_at st1 r2 of
                  None \<Rightarrow> None
                | Some r2o \<Rightarrow>
                    (let st2 = st1\<lparr>robot_at := (robot_at st1)(r2 \<mapsto> r2o\<lparr>ro_name := ''P/'' @ ro_name ro\<rparr>)\<rparr>
                     in case perturb_loop rand p r2 [0..<length (ro_links ro)] st2 of
                          None \<Rightarrow> None
                        | Some st3 \<Rightarrow> Some (r2, st3)))))"

text \<open>
  A store is well formed when every object in it has an address below \<open>next_addr\<close>; a robot
  is valid in it when its object, its links and its arrays are there. \<open>unchanged st st'\<close>:
  every object of \<open>st\<close> is still the same in \<open>st'\<close>.
\<close>
definition wf_store :: "store \<Rightarrow> bool" where
  "wf_store st \<longleftrightarrow>
     (\<forall>a. (a \<in> dom (robot_at st) \<or> a \<in> dom (link_at st) \<or> a \<in> dom (array_at st)) \<longrightarrow>
          a < next_addr st)"

definition valid_robot :: "store \<Rightarrow> addr \<Rightarrow> bool" where
  "valid_robot st a \<longleftrightarrow>
     (case robot_at st a of
        None \<Rightarrow> False
      | Some ro \<Rightarrow> set (ro_links ro) \<subseteq> dom (link_at st) \<and>
                   ro_gravity ro \<in> dom (array_at st) \<and> ro_q ro \<in> dom (array_at st))"

definition unchanged :: "store \<Rightarrow> store \<Rightarrow> bool" where
  "unchanged st st' \<longleftrightarrow>
     (\<forall>a. (a \<in> dom (robot_at st) \<longrightarrow> robot_at st' a = robot_at st a) \<and>
          (a \<in> dom (link_at st) \<longrightarrow> link_at st' a = link_at st a) \<and>
          (a \<in> dom (array_at st) \<longrightarrow> array_at st' a = array_at st a))"

text \<open>
  \<open>grows st st'\<close>: \<open>st'\<close> has the objects of \<open>st\<close> at the addresses below \<open>next_addr st\<close>,
  unchanged, and possibly more above.
\<close>
definition grows :: "store \<Rightarrow> store \<Rightarrow> bool" where
  "grows st st' \<longleftrightarrow>
     next_addr st \<le> next_addr st' \<and>
     (\<forall>a<next_addr st. robot_at st' a = robot_at st a \<and> link_at st' a = link_at st a \<and>
                        array_at st' a = array_at st a)"

text \<open>
  \<open>fresh_copy st st' r\<close>: going from \<open>st\<close> to \<open>st'\<close> has left every object of \<open>st\<close> as it was,
  and \<open>r\<close> is a robot object of \<open>st'\<close> that was not in \<open>st\<close>, all of whose links are link
  objects of \<open>st'\<close> that were not in \<open>st\<close>.
\<close>
definition fresh_copy :: "store \<Rightarrow> store \<Rightarrow> addr \<Rightarrow> bool" where
  "fresh_copy st st' r \<longleftrightarrow>
     unchanged st st' \<and> r \<notin> dom (robot_at st) \<and>
     (case robot_at st' r of
        None \<Rightarrow> False
      | Some ro \<Rightarrow> set (ro_links ro) \<subseteq> dom (link_at st') \<and>
                   set (ro_links ro) \<inter> dom (link_at st) = {})"



section \<open>An example robot and oracle\<close>

text \<open>
  Two decoupled joints, each a mass with viscous friction lifted against gravity along
  \<open>z\<close>, with a velocity-product coupling on the first joint; and the inverse of a
  two-by-two matrix. They instantiate the parameters of the model in the examples below.
\<close>
definition ex_link :: "real \<Rightarrow> real \<Rightarrow> link" where
  "ex_link mass b =
     \<lparr>link_m = mass, link_r = [0, 0, 0], link_I = [[0, 0, 0], [0, 0, 0], [0, 0, 0]],
      link_Jm = 0, link_G = 1, link_B = b, link_Tc = (1, -1)\<rparr>"

definition ex_robot :: robot where
  "ex_robot = \<lparr>name = ''two'', links = [ex_link 2 1, ex_link 4 3], gravity = [0, 0, 10],
               robot_q = [0, 0]\<rparr>"

definition ex_rne :: rne_fun where
  "ex_rne rob q qd qdd g =
     map (\<lambda>i. link_m (links rob ! i) * (qdd ! i + g ! 2) + link_B (links rob ! i) * qd ! i
              + (if i = 0 then qd ! 0 * qd ! 1 else 0))
       [0..<n_of rob]"

definition inv2 :: inv_fun where
  "inv2 M =
     (case M of
        [[a, b], [c, d]] \<Rightarrow>
          (if a * d - b * c = 0 then Inl (LinAlgError ''Singular matrix'')
           else Inr [[d / (a * d - b * c), - b / (a * d - b * c)],
                     [- c / (a * d - b * c), a / (a * d - b * c)]])
      | _ \<Rightarrow> Inl (LinAlgError ''Last 2 dimensions of the array must be square''))"

text \<open>
  A Jacobian for the two-joint example, and a six-joint robot of decoupled joints with two
  Jacobians: the identity, and a singular one in which no joint moves the end-effector
  along \<open>x\<close>.
\<close>
definition ex_jac :: jac_fun where
  "ex_jac frame rob q = [[1, 0, 0, 0, 0, 0], [0, 1, 0, 0, 0, 0]]"

definition ex_robot6 :: robot where
  "ex_robot6 = \<lparr>name = ''six'', links = replicate 6 (ex_link 1 0), gravity = [0, 0, 10],
                robot_q = replicate 6 0\<rparr>"

definition ex_jac6 :: jac_fun where
  "ex_jac6 frame rob q =
     [[1, 0, 0, 0, 0, 0], [0, 1, 0, 0, 0, 0], [0, 0, 1, 0, 0, 0],
      [0, 0, 0, 1, 0, 0], [0, 0, 0, 0, 1, 0], [0, 0, 0, 0, 0, 1]]"


definition ex_tauR6 :: "vec list" where
  "ex_tauR6 = [[100, 100, 100, 100, 100, 100], [- 100, - 100, - 100, - 100, - 100, - 100]]"

text \<open>
  An example integrator: explicit Euler steps of length \<open>h\<close> (the last one shortened to
  end at the bound), which reports failure when its budget of steps is used up.
\<close>
record euler_state =
  e_t :: real
  e_y :: vec
  e_status :: status
  e_bound :: real
  e_left :: nat

definition euler :: "real \<Rightarrow> nat \<Rightarrow> euler_state integrator" where
  "euler h budget =
     \<lparr>solver_init = (\<lambda>t0 y0 tb.
        Return \<lparr>e_t = t0, e_y = y0, e_status = Running, e_bound = tb, e_left = budget\<rparr>),
      solver_step = (\<lambda>s.
        if e_t s = e_bound s then Return (s\<lparr>e_status := Finished\<rparr>)
        else if e_left s = 0 then Return (s\<lparr>e_status := Failed\<rparr>)
        else Call (e_t s) (e_y s) (\<lambda>d.
          let t' = e_t s + min h (e_bound s - e_t s)
          in Return \<lparr>e_t = t', e_y = map2 (\<lambda>y k. y + (t' - e_t s) * k) (e_y s) d,
                     e_status = (if e_bound s \<le> t' then Finished else Running),
                     e_bound = e_bound s, e_left = e_left s - 1\<rparr>)),
      solver_status = e_status, solver_t = e_t, solver_y = e_y\<rparr>"

definition ex_solvers :: "nat \<Rightarrow> string \<Rightarrow> euler_state integrator option" where
  "ex_solvers budget s = (if s = ''RK45'' then Some (euler (1 / 2) budget) else None)"

text \<open>Two torque laws: a proportional-derivative law, and one that returns too few torques.\<close>
definition ex_pd :: "robot \<Rightarrow> real \<Rightarrow> vec \<Rightarrow> vec \<Rightarrow> complex list" where
  "ex_pd rob t q qd = map2 (\<lambda>a b. complex_of_real (- a - b)) q qd"

definition ex_short :: "robot \<Rightarrow> real \<Rightarrow> vec \<Rightarrow> vec \<Rightarrow> complex list" where
  "ex_short rob t q qd = (if t = 0 then [0, 0] else [0])"

text \<open>A torque law that holds the two-joint example against gravity.\<close>
definition ex_hold :: "robot \<Rightarrow> real \<Rightarrow> vec \<Rightarrow> vec \<Rightarrow> complex list" where
  "ex_hold rob t q qd = [20, 40]"

text \<open>The doubles nearest to 2.1 and to 0.3.\<close>
definition ex_T :: real where
  "ex_T = 4728779608739021 / 2251799813685248"

definition ex_dt :: real where
  "ex_dt = 5404319552844595 / 18014398509481984"

text \<open>
  A store with the two-link robot as an object: its links at the addresses 0 and 1, its
  gravity and joint-state arrays at 2 and 3, the robot itself at 4.
\<close>
definition ex_store :: store where
  "ex_store =
     \<lparr>robot_at = [4 \<mapsto> \<lparr>ro_name = ''two'', ro_links = [0, 1], ro_gravity = 2, ro_q = 3\<rparr>],
      link_at = [0 \<mapsto> ex_link 2 1, 1 \<mapsto> ex_link 4 3],
      array_at = [2 \<mapsto> [0, 0, 10], 3 \<mapsto> [0, 0]],
      next_addr = 5\<rparr>"

section \<open>Vectors, matrices and loops\<close>

lemma fold_update_prefix:
  "j \<le> length xs \<Longrightarrow> fold (\<lambda>i A. A[i := f i]) [0..<j] xs = map f [0..<j] @ drop j xs"
proof (induction j)
  case 0
  then show ?case by simp
next
  case (Suc j)
  then have "fold (\<lambda>i A. A[i := f i]) [0..<Suc j] xs = (map f [0..<j] @ drop j xs)[j := f j]"
    by simp
  also have "\<dots> = map f [0..<j] @ (drop j xs)[0 := f j]"
    by (simp add: list_update_append)
  also have "(drop j xs)[0 := f j] = f j # drop (Suc j) xs"
    using Suc.prems by (cases "drop j xs") (auto simp: drop_Suc drop_tl)
  finally show ?case by simp
qed

lemma fill_planes_map: "fill_planes z k f = map f [0..<k]"
  unfolding fill_planes_def by (simp add: fold_update_prefix)

lemma length_vadd [simp]: "length (vadd a b) = min (length a) (length b)"
  by (simp add: vadd_def)

lemma length_smul [simp]: "length (smul c a) = length a"
  by (simp add: smul_def)

lemma length_zeros [simp]: "length (zeros k) = k"
  by (simp add: zeros_def)

lemma vadd_zeros_right: "length a = k \<Longrightarrow> vadd a (zeros k) = a"
  by (auto simp: vadd_def zeros_def intro!: nth_equalityI)

lemma smul_one [simp]: "smul 1 a = a"
  by (simp add: smul_def)

lemma length_matvec: "\<forall>c \<in> set cs. length c = r \<Longrightarrow> length (matvec r cs xs) = r"
  by (induction r cs xs rule: matvec.induct) auto

lemma matvec_nth:
  "\<forall>c \<in> set cs. length c = r \<Longrightarrow> i < r \<Longrightarrow>
   matvec r cs xs ! i = (\<Sum>k<min (length cs) (length xs). xs ! k * (cs ! k ! i))"
proof (induction r cs xs rule: matvec.induct)
  case (1 r c cs x xs)
  have len: "length (matvec r cs xs) = r" using 1(2) by (simp add: length_matvec)
  have "matvec r (c # cs) (x # xs) ! i = c ! i * x + matvec r cs xs ! i"
    using 1(2,3) len by (simp add: vadd_def smul_def)
  also have "\<dots> = x * (c ! i) + (\<Sum>k<min (length cs) (length xs). xs ! k * (cs ! k ! i))"
    using 1 by simp
  also have "\<dots> = (\<Sum>k<Suc (min (length cs) (length xs)). (x # xs) ! k * ((c # cs) ! k ! i))"
    by (subst sum.lessThan_Suc_shift) simp
  finally show ?case by (simp del: sum.lessThan_Suc)
qed (simp_all add: zeros_def)

lemma matvec_eye: "length v = k \<Longrightarrow> matvec k (eye k) v = v"
proof (rule nth_equalityI)
  assume l: "length v = k"
  have cols: "\<forall>c \<in> set (eye k). length c = k" by (auto simp: eye_def eye_col_def)
  show "length (matvec k (eye k) v) = length v" using cols l by (simp add: length_matvec)
  fix i assume "i < length (matvec k (eye k) v)"
  then have i: "i < k" using cols by (simp add: length_matvec)
  have "matvec k (eye k) v ! i = (\<Sum>j<k. v ! j * (eye k ! j ! i))"
    using matvec_nth[OF cols i, of v] l by (simp add: eye_def)
  also have "\<dots> = (\<Sum>j<k. if j = i then v ! j else 0)"
    using i by (intro sum.cong) (auto simp: eye_def eye_col_def)
  also have "\<dots> = v ! i" using i by simp
  finally show "matvec k (eye k) v ! i = v ! i" .
qed

lemma smul_zero: "smul 0 a = zeros (length a)"
  by (simp add: smul_def zeros_def map_replicate_const)

lemma linear_zero:
  assumes "linear_in_qdd n f"
  shows "f (zeros n) = zeros n"
proof -
  have "f (smul 0 (zeros n)) = smul 0 (f (zeros n))"
    using assms by (simp add: linear_in_qdd_def)
  moreover have "length (f (zeros n)) = n"
    using assms by (simp add: linear_in_qdd_def)
  ultimately show ?thesis by (simp add: smul_zero)
qed

lemma linear_matvec:
  assumes lin: "linear_in_qdd n f"
  shows "\<forall>c \<in> set cs. length c = n \<Longrightarrow> f (matvec n cs xs) = matvec n (map f cs) xs"
proof (induction cs arbitrary: xs)
  case Nil
  then show ?case by (simp add: linear_zero[OF lin])
next
  case (Cons c cs)
  show ?case
  proof (cases xs)
    case Nil
    then show ?thesis by (simp add: linear_zero[OF lin])
  next
    case (Cons x xs')
    have "length (matvec n cs xs') = n" using Cons.prems by (simp add: length_matvec)
    moreover have "length c = n" using Cons.prems by simp
    ultimately have "f (vadd (smul x c) (matvec n cs xs')) = vadd (smul x (f c)) (f (matvec n cs xs'))"
      using lin by (simp add: linear_in_qdd_def)
    then show ?thesis using Cons.IH[of xs'] Cons.prems Cons by simp
  qed
qed

lemma matvec_single_one: "length a = k \<Longrightarrow> matvec k [a] [1] = a"
  by (simp add: vadd_zeros_right)

lemma inertia_at_cols:
  assumes "length q = n_of rob"
  shows "inertia_at rne rob q =
         map (\<lambda>j. rne rob q (zeros (n_of rob)) (eye_col (n_of rob) j) [0, 0, 0]) [0..<n_of rob]"
proof -
  have "matmul (n_of rob) [q] (map (\<lambda>x. [x]) (ones (n_of rob))) = replicate (n_of rob) q"
    using assms by (simp add: matmul_def ones_def vadd_zeros_right map_replicate_const)
  then show ?thesis
    unfolding inertia_at_def Let_def rne_batch_def eye_def
    by (auto intro!: nth_equalityI)
qed


lemma ebind_simps [simp]: "ebind (Inl e) f = Inl e" "ebind (Inr v) f = f v"
  by (simp_all add: ebind_def)

lemma for_cols_append:
  "for_cols f (xs @ ys) A = ebind (for_cols f xs A) (for_cols f ys)"
proof (induction xs arbitrary: A)
  case Nil
  then show ?case by simp
next
  case (Cons i xs)
  then show ?case by (cases "f i") simp_all
qed

lemma collect_snoc:
  "collect (xs @ [x]) = ebind (collect xs) (\<lambda>vs. ebind x (\<lambda>v. Inr (vs @ [v])))"
proof (induction xs)
  case Nil
  then show ?case by (cases x) simp_all
next
  case (Cons y ys)
  show ?case
  proof (cases y)
    case (Inl e)
    then show ?thesis by simp
  next
    case (Inr v)
    then show ?thesis using Cons by (cases "collect ys"; cases x) simp_all
  qed
qed

lemma length_collect: "collect xs = Inr vs \<Longrightarrow> length vs = length xs"
proof (induction xs arbitrary: vs)
  case Nil
  then show ?case by simp
next
  case (Cons x xs)
  then show ?case by (cases x; cases "collect xs") auto
qed

lemma for_cols_prefix:
  "j \<le> length A \<Longrightarrow>
   for_cols f [0..<j] A = ebind (collect (map f [0..<j])) (\<lambda>vs. Inr (vs @ drop j A))"
proof (induction j)
  case 0
  then show ?case by simp
next
  case (Suc j)
  show ?case
  proof (cases "collect (map f [0..<j])")
    case (Inl e)
    then show ?thesis using Suc by (simp add: for_cols_append collect_snoc)
  next
    case (Inr vs)
    then have l: "length vs = j" using length_collect by fastforce
    have d: "(drop j A)[0 := v] = v # drop (Suc j) A" for v
      using Suc.prems by (cases "drop j A") (auto simp: drop_Suc drop_tl)
    show ?thesis
      using Suc Inr l by (cases "f j") (simp_all add: for_cols_append collect_snoc list_update_append d)
  qed
qed

lemma for_cols_all:
  "for_cols f [0..<k] (replicate k z) = collect (map f [0..<k])"
  by (cases "collect (map f [0..<k])") (simp_all add: for_cols_prefix)

lemma getvector_batch:
  "length cs \<noteq> 1 \<Longrightarrow> getvector (Mat r cs) r = Inl (ValueError ''incorrect vector length'')"
  by auto

lemma n_ex: "n_of ex_robot = 2"
  by (simp add: n_of_def ex_robot_def)

lemma upt2: "[0..<2] = [0, 1]"
  by (simp add: upt_rec numeral_2_eq_2)

section \<open>The integration loop\<close>

declare fdyn_loop.simps [code]

lemma fdyn_loop_prefix_aux:
  assumes "fdyn_loop integ f s tl0 xl0 = Some r"
  shows "\<forall>ts xs. r = Inr (ts, xs) \<longrightarrow> (\<exists>ta xa. ts = tl0 @ ta \<and> xs = xl0 @ xa)"
proof (rule fdyn_loop.raw_induct[where P = "\<lambda>integ f s tl0 xl0 r.
    \<forall>ts xs. r = Inr (ts, xs) \<longrightarrow> (\<exists>ta xa. ts = tl0 @ ta \<and> xs = xl0 @ xa)", OF _ assms])
  fix loop :: "'a integrator \<Rightarrow> (real \<Rightarrow> vec \<Rightarrow> error + vec) \<Rightarrow> 'a \<Rightarrow> real list \<Rightarrow> vec list \<Rightarrow>
      (error + real list \<times> vec list) option"
    and integ f s tl0 xl0 r
  assume IH: "\<And>integ f s tl0 xl0 r. loop integ f s tl0 xl0 = Some r \<Longrightarrow>
      \<forall>ts xs. r = Inr (ts, xs) \<longrightarrow> (\<exists>ta xa. ts = tl0 @ ta \<and> xs = xl0 @ xa)"
    and eq: "(if solver_status integ s = Running then
        (case run f (solver_step integ s) of
           Inl e \<Rightarrow> Some (Inl e)
         | Inr s' \<Rightarrow>
             if solver_status integ s' = Failed then Some (Inl failed_error)
             else loop integ f s' (tl0 @ [solver_t integ s']) (xl0 @ [solver_y integ s']))
      else Some (Inr (tl0, xl0))) = Some r"
  show "\<forall>ts xs. r = Inr (ts, xs) \<longrightarrow> (\<exists>ta xa. ts = tl0 @ ta \<and> xs = xl0 @ xa)"
  proof (intro allI impI)
    fix ts xs assume r: "r = Inr (ts, xs)"
    show "\<exists>ta xa. ts = tl0 @ ta \<and> xs = xl0 @ xa"
    proof (cases "solver_status integ s = Running")
      case False
      then have "ts = tl0 \<and> xs = xl0" using eq r by simp
      then show ?thesis by simp
    next
      case True
      show ?thesis
      proof (cases "run f (solver_step integ s)")
        case (Inl e)
        then show ?thesis using eq True r by simp
      next
        case (Inr s')
        show ?thesis
        proof (cases "solver_status integ s' = Failed")
          case True
          then show ?thesis using eq \<open>solver_status integ s = Running\<close> Inr r by simp
        next
          case False
          then have "loop integ f s' (tl0 @ [solver_t integ s']) (xl0 @ [solver_y integ s']) = Some r"
            using eq True Inr by simp
          from IH[OF this] r obtain ta xa where
            "ts = (tl0 @ [solver_t integ s']) @ ta" "xs = (xl0 @ [solver_y integ s']) @ xa"
            by blast
          then have "ts = tl0 @ (solver_t integ s' # ta) \<and> xs = xl0 @ (solver_y integ s' # xa)"
            by simp
          then show ?thesis by blast
        qed
      qed
    qed
  qed
qed

lemma fdyn_loop_prefix:
  assumes "fdyn_loop integ f s tl0 xl0 = Some (Inr (ts, xs))"
  shows "\<exists>ta xa. ts = tl0 @ ta \<and> xs = xl0 @ xa"
  using fdyn_loop_prefix_aux[OF assms] by blast

lemma fdyn_loop_iter:
  assumes "solver_status integ s = Running" "run f (solver_step integ s) = Inr s'"
    "solver_status integ s' \<noteq> Failed"
  shows "fdyn_loop integ f s tlist xlist =
         fdyn_loop integ f s' (tlist @ [solver_t integ s']) (xlist @ [solver_y integ s'])"
  by (subst fdyn_loop.simps) (simp add: assms)

lemma loop_reaches_same:
  "loop_reaches integ f c c' \<Longrightarrow>
   fdyn_loop integ f (fst c) (fst (snd c)) (snd (snd c)) =
   fdyn_loop integ f (fst c') (fst (snd c')) (snd (snd c'))"
proof (induction rule: loop_reaches.induct)
  case (reaches_start c)
  show ?case ..
next
  case (reaches_step c s tlist xlist s')
  have "fdyn_loop integ f s tlist xlist =
        fdyn_loop integ f s' (tlist @ [solver_t integ s']) (xlist @ [solver_y integ s'])"
    using reaches_step.hyps(2,3,4) by (rule fdyn_loop_iter)
  then show ?case using reaches_step.IH by simp
qed

lemma run_calls_error:
  "calls f p t y \<Longrightarrow> f t y = Inl e \<Longrightarrow> run f p = Inl e"
  by (induction rule: calls.induct) simp_all

lemma fdyn_loop_step_error:
  assumes "solver_status integ s = Running" "run f (solver_step integ s) = Inl e"
  shows "fdyn_loop integ f s tlist xlist = Some (Inl e)"
  by (subst fdyn_loop.simps) (simp add: assms)

lemma fdyn_loop_step_failed:
  assumes "solver_status integ s = Running" "run f (solver_step integ s) = Inr s'"
    "solver_status integ s' = Failed"
  shows "fdyn_loop integ f s tlist xlist = Some (Inl failed_error)"
  by (subst fdyn_loop.simps) (simp add: assms)

lemma fdyn_loop_done:
  assumes "solver_status integ s \<noteq> Running"
  shows "fdyn_loop integ f s tlist xlist = Some (Inr (tlist, xlist))"
  by (subst fdyn_loop.simps) (simp add: assms)

lemma euler_init:
  "solver_init (euler h b) t0 y0 tb =
   Return \<lparr>e_t = t0, e_y = y0, e_status = Running, e_bound = tb, e_left = b\<rparr>"
  by (simp add: euler_def)

lemma euler_fields:
  "solver_status (euler h b) = e_status" "solver_t (euler h b) = e_t" "solver_y (euler h b) = e_y"
  by (simp_all add: euler_def)

lemma euler_step:
  "solver_step (euler h b) s =
     (if e_t s = e_bound s then Return (s\<lparr>e_status := Finished\<rparr>)
      else if e_left s = 0 then Return (s\<lparr>e_status := Failed\<rparr>)
      else Call (e_t s) (e_y s) (\<lambda>d.
        let t' = e_t s + min h (e_bound s - e_t s)
        in Return \<lparr>e_t = t', e_y = map2 (\<lambda>y k. y + (t' - e_t s) * k) (e_y s) d,
                   e_status = (if e_bound s \<le> t' then Finished else Running),
                   e_bound = e_bound s, e_left = e_left s - 1\<rparr>))"
  by (simp add: euler_def)

lemma ex_setup:
  "fdyn_setup (ex_solvers b) ex_rne inv2 ex_robot T (Vec [1, 0]) torqfun None ''RK45'' =
     (if (case torqfun of NotCallable \<Rightarrow> True | _ \<Rightarrow> False)
      then Inl (ValueError ''torque function must be callable'')
      else Inr (euler (1 / 2) b,
             \<lparr>e_t = 0, e_y = [1, 0, 0, 0], e_status = Running, e_bound = T, e_left = b\<rparr>,
             [1, 0, 0, 0]))"
  by (simp add: fdyn_setup_def n_ex ex_solvers_def euler_init zeros_def Let_def numeral_2_eq_2)

lemma ex_pd_deriv0:
  "deriv_fun ex_rne inv2 ex_robot (TorqueFun ex_pd) 0 [1, 0, 0, 0] = Inr [0, 0, - (21 / 2), - 10]"
  by code_simp

lemma ex_short_deriv0:
  "deriv_fun ex_rne inv2 ex_robot (TorqueFun ex_short) 0 [1, 0, 0, 0] = Inr [0, 0, - 10, - 10]"
  by code_simp

section \<open>Forward dynamics\<close>

lemma accel_col_spec:
  assumes "length q = n_of rob"
  shows "accel_col rne linalg_inv rob q qd tau = accel_spec rne linalg_inv rob q qd tau"
proof -
  have "matmul (n_of rob) [q] (map (\<lambda>x. [x]) (ones (n_of rob))) = replicate (n_of rob) q"
    using assms by (simp add: matmul_def ones_def vadd_zeros_right map_replicate_const)
  moreover have "rne_batch rne rob (replicate (n_of rob) q) (replicate (n_of rob) (zeros (n_of rob)))
          (eye (n_of rob)) [0, 0, 0] = mass_matrix_spec rne rob q"
    unfolding rne_batch_def eye_def mass_matrix_spec_def by (auto intro!: nth_equalityI)
  ultimately show ?thesis
    by (cases "linalg_inv (mass_matrix_spec rne rob q)")
       (simp_all add: accel_col_def accel_spec_def matmul_def Let_def)
qed

text \<open>
  Claim C1. For vectors \<open>q\<close>, \<open>qd\<close>, \<open>tau\<close> of length \<open>n\<close>, \<^verbatim>\<open>accel\<close> returns
  \<open>M(q)\<^sup>-\<^sup>1 (tau - tau_bias)\<close>, with \<open>M(q)\<close> from the \<open>n\<close> unit-acceleration probes at zero
  velocity and zero gravity and \<open>tau_bias\<close> from one oracle call at \<open>(q, qd, 0, gravity)\<close>;
  for batched inputs of \<open>k\<close> columns the result has one such column per input column, each
  with its own \<open>M\<close> and \<open>tau_bias\<close> (and the first failing inversion is the error raised).
\<close>
theorem accel_refines_spec:
  "(length q = n_of rob \<and> length qd = n_of rob \<and> length tau = n_of rob \<longrightarrow>
      accel rne linalg_inv rob (Vec q) (Vec qd) (Vec tau) =
      map_sum id Vec (accel_spec rne linalg_inv rob q qd tau)) \<and>
   (length Q = k \<and> length QD = k \<and> length TAU = k \<and> k \<noteq> 1 \<and>
    (\<forall>c \<in> set Q. length c = n_of rob) \<longrightarrow>
      accel rne linalg_inv rob (Mat (n_of rob) Q) (Mat (n_of rob) QD) (Mat (n_of rob) TAU) =
      map_sum id (Mat (n_of rob))
        (collect (map (\<lambda>i. accel_spec rne linalg_inv rob (Q ! i) (QD ! i) (TAU ! i)) [0..<k])))"
proof (intro conjI impI)
  assume a: "length q = n_of rob \<and> length qd = n_of rob \<and> length tau = n_of rob"
  then show "accel rne linalg_inv rob (Vec q) (Vec qd) (Vec tau) =
      map_sum id Vec (accel_spec rne linalg_inv rob q qd tau)"
    by (cases "accel_spec rne linalg_inv rob q qd tau")
       (simp_all add: accel_def accel_col_spec Let_def)
next
  assume a: "length Q = k \<and> length QD = k \<and> length TAU = k \<and> k \<noteq> 1 \<and>
    (\<forall>c \<in> set Q. length c = n_of rob)"
  let ?f = "\<lambda>i. accel_col rne linalg_inv rob (Q ! i) (QD ! i) (TAU ! i)"
  let ?g = "\<lambda>i. accel_spec rne linalg_inv rob (Q ! i) (QD ! i) (TAU ! i)"
  have fg: "map ?f [0..<k] = map ?g [0..<k]"
    using a by (simp add: accel_col_spec)
  have "accel rne linalg_inv rob (Mat (n_of rob) Q) (Mat (n_of rob) QD) (Mat (n_of rob) TAU) =
        ebind (for_cols ?f [0..<k] (replicate k (zeros (n_of rob))))
          (\<lambda>qdd. Inr (Mat (n_of rob) qdd))"
    using a by (simp add: accel_def accel_batch_def Let_def getvector_batch del: getvector.simps)
  also have "\<dots> = map_sum id (Mat (n_of rob)) (collect (map ?g [0..<k]))"
    unfolding for_cols_all fg by (cases "collect (map ?g [0..<k])") simp_all
  finally show "accel rne linalg_inv rob (Mat (n_of rob) Q) (Mat (n_of rob) QD) (Mat (n_of rob) TAU) =
      map_sum id (Mat (n_of rob)) (collect (map ?g [0..<k]))" .
qed

theorem accel_refines_spec_witness:
  "accel ex_rne inv2 ex_robot (Vec [0, 0]) (Vec [1, 1]) (Vec [1, 2]) = Inr (Vec [- (21 / 2), - (41 / 4)]) \<and>
   accel ex_rne inv2 ex_robot (Mat 2 [[0, 0], [0, 1]]) (Mat 2 [[1, 1], [0, 0]]) (Mat 2 [[1, 2], [2, 3]])
     = Inr (Mat 2 [[- (21 / 2), - (41 / 4)], [- 9, - (37 / 4)]])"
proof -
  have s1: "accel_spec ex_rne inv2 ex_robot [0, 0] [1, 1] [1, 2] = Inr [- (21 / 2), - (41 / 4)]"
    by code_simp
  have s2: "accel_spec ex_rne inv2 ex_robot [0, 1] [0, 0] [2, 3] = Inr [- 9, - (37 / 4)]"
    by code_simp
  show ?thesis
    using accel_refines_spec [of "[0, 0]" ex_robot "[1, 1]" "[1, 2]" ex_rne inv2
      "[[0, 0], [0, 1]]" 2 "[[1, 1], [0, 0]]" "[[1, 2], [2, 3]]"]
    by (simp add: s1 s2 upt2 n_ex)
qed

section \<open>The Coriolis matrix\<close>














lemma n_of_nofriction [simp]: "n_of (nofriction rob cl vs) = n_of rob"
  by (simp add: nofriction_def n_of_def)





lemma length_vsub [simp]: "length (vsub a b) = min (length a) (length b)"
  by (simp add: vsub_def)

lemma pairs_mem:
  "(i, j) \<in> set (concat (map (\<lambda>i. map (Pair i) [i + 1..<n]) [0..<n])) \<longleftrightarrow> i < j \<and> j < n"
  by force





section \<open>Payload capacity\<close>





lemma headroom_length [simp]: "length (headroom n tauR tauB tauP) = n"
  by (simp add: headroom_def Let_def)




lemma paycap_single:
  assumes "length q = n_of rob" "length w = 6"
  shows "paycap rne jac rob (Vec w) tauR frame (Vec q) =
         ebind (verifymatrix tauR (n_of rob, 2)) (\<lambda>tauRc.
         ebind (paycap_col rne jac rob tauRc frame q w) (\<lambda>(col, j). Inr (Single col j)))"
proof (cases "verifymatrix tauR (n_of rob, 2)")
  case (Inl e)
  then show ?thesis using assms by (simp add: paycap_def Let_def)
next
  case (Inr tauRc)
  then show ?thesis using assms
    by (cases "paycap_col rne jac rob tauRc frame q w") (auto simp: paycap_def Let_def)
qed


lemma norm_ex: "norm2 [1, 0, 0, 0, 0, 0] = 1" by (simp add: norm2_def)

lemma norm_ey: "norm2 [0, 1, 0, 0, 0, 0] = 1" by (simp add: norm2_def)

lemma n_ex6: "n_of ex_robot6 = 6" by (simp add: n_of_def ex_robot6_def)

lemma upt6: "[0..<6] = [0, 1, 2, 3, 4, 5]"
  by (simp add: upt_rec numeral_eq_Suc)

lemma gl6: "gravload ex_rne ex_robot6 [0, 0, 0, 0, 0, 0] = Inr [10, 10, 10, 10, 10, 10]"
  by (simp add: gravload_def n_of_def ex_robot6_def ex_rne_def ex_link_def zeros_def upt6)

lemma gl2: "gravload ex_rne ex_robot [0, 0] = Inr [20, 40]"
  by (simp add: gravload_def n_of_def ex_robot_def ex_rne_def ex_link_def zeros_def upt2)

lemma ut2: "unit_torque ex_jac ex_robot [1, 0, 0, 0, 0, 0] [0, 0] True = Inr [Fin (- 1), Fin 0]"
  by (simp add: unit_torque_def norm_ex pay_def n_ex ex_jac_def fdot_def)


lemma ut6: "unit_torque ex_jac6 ex_robot6 [0, 1, 0, 0, 0, 0] [0, 0, 0, 0, 0, 0] True =
    Inr [Fin 0, Fin (- 1), Fin 0, Fin 0, Fin 0, Fin 0]"
  by (simp add: unit_torque_def norm_ey pay_def n_ex6 ex_jac6_def fdot_def)

lemma hr6: "headroom 6 ex_tauR6 [10, 10, 10, 10, 10, 10] [Fin 0, Fin (- 1), Fin 0, Fin 0, Fin 0, Fin 0] =
    [PInf, Fin 110, PInf, PInf, PInf, PInf]"
  by (simp add: headroom_def Let_def wm_entry_def inf_of_sign_def ex_tauR6_def upt6)


lemma vm6: "verifymatrix (Mat 6 ex_tauR6) (6, 2) = Inr ex_tauR6"
  by (simp add: ex_tauR6_def)

lemma pc6: "paycap ex_rne ex_jac6 ex_robot6 (Vec [0, 1, 0, 0, 0, 0]) (Mat 6 ex_tauR6) True
              (Vec [0, 0, 0, 0, 0, 0]) = Inr (Single [PInf, Fin 110, PInf, PInf, PInf, PInf] 1)"
  by (simp add: paycap_single n_ex6 vm6 paycap_col_def gl6 ut6 hr6 store_col6_def
      del: verifymatrix.simps)




text \<open>
  Claim C4 says that the first result of \<^verbatim>\<open>paycap\<close> is the maximal permissible wrench, a
  vector of six components scaled by the smallest of the joints' factors. The code stores
  the vector \<^verbatim>\<open>WM\<close> of all joints' factors in the column of six components instead: for the
  two-joint robot the store raises, and for the six-joint robot with a unit force along
  \<open>y\<close> the first result is the factors \<open>[\<infinity>, 110, \<infinity>, \<infinity>, \<infinity>, \<infinity>]\<close>, not the wrench
  \<open>[0, 110, 0, 0, 0, 0]\<close>.
\<close>
theorem paycap_first_result_evaluated:
  "paycap ex_rne ex_jac ex_robot (Vec [1, 0, 0, 0, 0, 0]) (Mat 2 [[100, 100], [- 100, - 100]]) True
     (Vec [0, 0]) = Inl (ValueError ''could not broadcast input array into shape (6,)'') \<and>
   paycap ex_rne ex_jac6 ex_robot6 (Vec [0, 1, 0, 0, 0, 0]) (Mat 6 ex_tauR6) True
     (Vec [0, 0, 0, 0, 0, 0]) = Inr (Single [PInf, Fin 110, PInf, PInf, PInf, PInf] 1)"
proof -
  have "paycap ex_rne ex_jac ex_robot (Vec [1, 0, 0, 0, 0, 0]) (Mat 2 [[100, 100], [- 100, - 100]]) True
     (Vec [0, 0]) = Inl (ValueError ''could not broadcast input array into shape (6,)'')"
    by (simp add: paycap_def paycap_col_def ut2 gl2 Let_def headroom_def wm_entry_def
        store_col6_def inf_of_sign_def n_ex upt2)
  then show ?thesis using pc6 by simp
qed

section \<open>Inertia torque\<close>

text \<open>
  Claim C5. For \<open>q\<close> and \<open>qdd\<close> of length \<open>n\<close>, \<^verbatim>\<open>itorque(q, qdd)\<close>, one oracle call at
  \<open>(q, 0, qdd)\<close> with zero gravity, equals the product of \<^verbatim>\<open>inertia(q)\<close>, assembled from the
  \<open>n\<close> unit-acceleration probes, with \<open>qdd\<close>, provided the oracle is linear in the
  acceleration at zero velocity and zero gravity.
\<close>
theorem itorque_eq_inertia_matvec:
  assumes "length q = n_of rob" "length qdd = n_of rob"
    and "linear_in_qdd (n_of rob) (\<lambda>a. rne rob q (zeros (n_of rob)) a [0, 0, 0])"
  shows "case inertia rne rob (Vec q) of
           Inr (Plane M) \<Rightarrow>
             itorque rne rob (Vec q) (Vec qdd) = Inr (Vec (matvec (n_of rob) M qdd))
         | _ \<Rightarrow> False"
proof -
  let ?n = "n_of rob"
  let ?f = "\<lambda>a. rne rob q (zeros ?n) a [0, 0, 0]"
  have I: "inertia rne rob (Vec q) = Inr (Plane (inertia_at rne rob q))"
    using assms(1) by (simp add: inertia_def ebind_def fill_planes_map)
  have T: "itorque rne rob (Vec q) (Vec qdd) = Inr (Vec (?f qdd))"
    using assms(1,2) by (simp add: itorque_def ebind_def fill_planes_map)
  have cols: "\<forall>c \<in> set (eye ?n). length c = ?n" by (auto simp: eye_def eye_col_def)
  have "?f qdd = ?f (matvec ?n (eye ?n) qdd)" using assms(2) by (simp add: matvec_eye)
  also have "\<dots> = matvec ?n (map ?f (eye ?n)) qdd"
    using linear_matvec[OF assms(3) cols] by simp
  also have "map ?f (eye ?n) = inertia_at rne rob q"
    using assms(1) by (simp add: inertia_at_cols eye_def)
  finally show ?thesis using I T by simp
qed

lemma ex_linear: "linear_in_qdd 2 (\<lambda>a. ex_rne ex_robot q (zeros 2) a [0, 0, 0])"
  unfolding linear_in_qdd_def
  by (auto simp: ex_rne_def ex_robot_def ex_link_def n_of_def upt2 zeros_def vadd_def smul_def
      length_Suc_conv numeral_2_eq_2 algebra_simps)

theorem itorque_eq_inertia_matvec_witness:
  "linear_in_qdd (n_of ex_robot) (\<lambda>a. ex_rne ex_robot [0, 0] (zeros (n_of ex_robot)) a [0, 0, 0]) \<and>
   inertia ex_rne ex_robot (Vec [0, 0]) = Inr (Plane [[2, 0], [0, 4]]) \<and>
   itorque ex_rne ex_robot (Vec [0, 0]) (Vec [1, 2]) = Inr (Vec (matvec 2 [[2, 0], [0, 4]] [1, 2]))"
proof -
  have I: "inertia ex_rne ex_robot (Vec [0, 0]) = Inr (Plane [[2, 0], [0, 4]])"
    by code_simp
  show ?thesis
    using itorque_eq_inertia_matvec [of "[0, 0]" ex_robot "[1, 2]" ex_rne] ex_linear [of "[0, 0]"]
    by (simp add: I n_ex)
qed

section \<open>Resampling the trajectory\<close>

lemma arange_exact:
  "d \<noteq> 0 \<Longrightarrow> arange (\<lambda>x. x) 0 T d = Inr (map (\<lambda>i. real i * d) [0..<nat \<lceil>T / d\<rceil>])"
  by (simp add: arange_def Let_def)

lemma grid_index: "0 < d \<Longrightarrow> i < nat \<lceil>T / d\<rceil> \<longleftrightarrow> real i * d < T"
proof -
  assume d: "0 < d"
  have "i < nat \<lceil>T / d\<rceil> \<longleftrightarrow> int i < \<lceil>T / d\<rceil>" by linarith
  also have "\<dots> \<longleftrightarrow> real_of_int (int i) < T / d" by (rule less_ceiling_iff)
  also have "\<dots> \<longleftrightarrow> real i * d < T" using d by (simp add: pos_less_divide_eq)
  finally show ?thesis .
qed

lemma grid_set:
  assumes "0 < d"
  shows "set (map (\<lambda>i. real i * d) [0..<nat \<lceil>T / d\<rceil>]) = {\<tau>. \<exists>i::nat. \<tau> = real i * d \<and> \<tau> < T}"
proof (intro set_eqI iffI)
  fix x assume "x \<in> set (map (\<lambda>i. real i * d) [0..<nat \<lceil>T / d\<rceil>])"
  then obtain i where "i < nat \<lceil>T / d\<rceil>" "x = real i * d" by auto
  then show "x \<in> {\<tau>. \<exists>i::nat. \<tau> = real i * d \<and> \<tau> < T}"
    using grid_index[OF assms, of i T] by blast
next
  fix x assume "x \<in> {\<tau>. \<exists>i::nat. \<tau> = real i * d \<and> \<tau> < T}"
  then obtain i :: nat where i: "x = real i * d" "x < T" by blast
  then have "i < nat \<lceil>T / d\<rceil>" using grid_index[OF assms, of i T] by simp
  then have "i \<in> set [0..<nat \<lceil>T / d\<rceil>]" by simp
  then have "real i * d \<in> (\<lambda>i. real i * d) ` set [0..<nat \<lceil>T / d\<rceil>]" by (rule imageI)
  then show "x \<in> set (map (\<lambda>i. real i * d) [0..<nat \<lceil>T / d\<rceil>])"
    using i(1) by (simp only: set_map)
qed

lemma collect_all_Inr:
  "collect xs = Inr vs \<Longrightarrow> x \<in> set xs \<Longrightarrow> \<exists>v. x = Inr v"
proof (induction xs arbitrary: vs)
  case Nil
  then show ?case by simp
next
  case (Cons a xs)
  then show ?case by (cases a; cases "collect xs") auto
qed

lemma interp_at_bounds:
  "interp_at pts v = Inr y \<Longrightarrow> Min (set (map fst pts)) \<le> v \<and> v \<le> Max (set (map fst pts))"
proof -
  assume a: "interp_at pts v = Inr y"
  have 1: "\<not> v < Min (set (map fst pts))"
  proof
    assume "v < Min (set (map fst pts))"
    then have "interp_at pts v = Inl (ValueError ''A value in x_new is below the interpolation range.'')"
      by (simp add: interp_at_def)
    then show False using a by simp
  qed
  have 2: "\<not> Max (set (map fst pts)) < v"
  proof
    assume "Max (set (map fst pts)) < v"
    then have "interp_at pts v = Inl (ValueError ''A value in x_new is above the interpolation range.'')"
      using 1 by (simp add: interp_at_def)
    then show False using a by simp
  qed
  show ?thesis using 1 2 by simp
qed

lemma interp1d_bounds:
  assumes "interp1d ts xs tn = Inr xnew" "v \<in> set tn"
  shows "Min (set ts) \<le> v \<and> v \<le> Max (set ts)"
proof -
  let ?pts = "sort_key fst (zip ts xs)"
  have len: "length ts = length xs" and c: "collect (map (interp_at ?pts) tn) = Inr xnew"
    using assms(1) by (auto simp: interp1d_def split: if_splits)
  obtain y where "interp_at ?pts v = Inr y"
    using collect_all_Inr[OF c, of "interp_at ?pts v"] assms(2) by auto
  then have "Min (set (map fst ?pts)) \<le> v \<and> v \<le> Max (set (map fst ?pts))"
    by (rule interp_at_bounds)
  moreover have "set (map fst ?pts) = set ts"
  proof -
    have "set (map fst ?pts) = fst ` set (zip ts xs)" by simp
    also have "\<dots> = set (map fst (zip ts xs))" by simp
    also have "\<dots> = set ts" using len by (simp only: map_fst_zip)
    finally show ?thesis .
  qed
  ultimately show ?thesis by simp
qed

lemma Max_sorted_last:
  assumes "sorted xs" "xs \<noteq> []"
  shows "Max (set xs) = last (xs :: real list)"
proof (rule Max_eqI)
  show "finite (set xs)" by simp
  show "last xs \<in> set xs" using assms(2) by simp
  fix y assume "y \<in> set xs"
  then obtain i where i: "i < length xs" "xs ! i = y" by (auto simp: in_set_conv_nth)
  then have "xs ! i \<le> xs ! (length xs - 1)"
    using assms(1) by (intro sorted_nth_mono) auto
  then show "y \<le> last xs" using i assms(2) by (simp add: last_conv_nth)
qed


lemma collect_Inr:
  "(\<forall>x \<in> set xs. \<exists>v. x = Inr v) \<Longrightarrow> \<exists>vs. collect xs = Inr vs"
proof (induction xs)
  case Nil
  then show ?case by simp
next
  case (Cons a xs)
  then obtain v vs where "a = Inr v" "collect xs = Inr vs" by auto
  then show ?case by simp
qed

lemma interp_at_inside:
  assumes "Min (set (map fst pts)) \<le> v" "v \<le> Max (set (map fst pts))"
  shows "\<exists>y. interp_at pts v = Inr y"
  using assms by (simp add: interp_at_def Let_def not_less del: set_map)

lemma interp1d_succeeds:
  assumes "length ts = length xs" "ts \<noteq> []"
    and "\<forall>v \<in> set tn. Min (set ts) \<le> v \<and> v \<le> Max (set ts)"
  shows "\<exists>xnew. interp1d ts xs tn = Inr xnew"
proof -
  let ?pts = "sort_key fst (zip ts xs)"
  have "set (map fst ?pts) = set ts"
  proof -
    have "set (map fst ?pts) = fst ` set (zip ts xs)" by simp
    also have "\<dots> = set (map fst (zip ts xs))" by simp
    also have "\<dots> = set ts" using assms(1) by (simp only: map_fst_zip)
    finally show ?thesis .
  qed
  then have "\<forall>v \<in> set tn. \<exists>y. interp_at ?pts v = Inr y"
    using assms(3) interp_at_inside[of ?pts] by simp
  then have "\<forall>x \<in> set (map (interp_at ?pts) tn). \<exists>y. x = Inr y" by auto
  then have "\<exists>vs. collect (map (interp_at ?pts) tn) = Inr vs" by (rule collect_Inr)
  then show ?thesis using assms(1,2) by (simp add: interp1d_def)
qed

lemma fdyn_of_samples:
  assumes "fdyn_samples solvers rne linalg_inv rob T q0 torqfun qd0 solver = Some (Inr (tarray, xarray))"
  shows "fdyn rnd solvers rne linalg_inv rob T q0 torqfun qd0 solver dt =
     (if \<not> list_all (\<lambda>x. length x = length (hd xarray)) xarray
      then Some (Inl (ValueError ''setting an array element with a sequence''))
      else
        case dt of
          Some d \<Rightarrow>
            Some (ebind (arange rnd 0 T d) (\<lambda>tnew.
                  ebind (interp1d tarray xarray tnew) (\<lambda>xnew.
                    Inr \<lparr>traj_t = tnew, traj_q = map (take (n_of rob)) xnew,
                         traj_qd = map (drop (n_of rob)) xnew\<rparr>)))
        | None \<Rightarrow>
            Some (Inr \<lparr>traj_t = tarray, traj_q = map (take (n_of rob)) xarray,
                         traj_qd = map (drop (n_of rob)) xarray\<rparr>))"
  by (simp add: fdyn_def assms Let_def)


lemma ulp_from_halve:
  "0 < u \<Longrightarrow> 2 ^ 52 * (u / 2 ^ j) \<le> a \<Longrightarrow> a < 2 ^ 53 * (u / 2 ^ j) \<Longrightarrow>
   ulp_from (j + k) a u = u / 2 ^ j"
proof (induction j arbitrary: u)
  case 0
  then show ?case by (cases k) simp_all
next
  case (Suc j)
  have p: "(0::real) < 2 ^ j" by simp
  have "u / 2 ^ j \<le> u"
    using Suc.prems(1) by (simp add: divide_le_eq_1_pos mult_le_cancel_left1 field_simps)
  then have "(2::real) ^ 52 * (u / 2 ^ j) \<le> 2 ^ 52 * u" by simp
  moreover have "a < 2 ^ 52 * (u / 2 ^ j)" using Suc.prems(3) by (simp add: field_simps)
  ultimately have lt: "a < 2 ^ 52 * u" by linarith
  then have nle: "\<not> 2 ^ 53 * u \<le> a" using Suc.prems(1) by simp
  have "ulp_from (Suc j + k) a u = ulp_from (j + k) a (u / 2)"
    using lt nle by simp
  also have "\<dots> = (u / 2) / 2 ^ j"
    using Suc.prems by (intro Suc.IH) (simp_all add: field_simps)
  finally show ?case by (simp add: field_simps)
qed

lemma rnd53_eval:
  assumes "j \<le> 1074" "2 ^ 52 \<le> \<bar>x\<bar> * 2 ^ j" "\<bar>x\<bar> * 2 ^ j < 2 ^ 53"
  shows "rnd53 x = of_int (round_even (x * 2 ^ j)) / 2 ^ j"
proof -
  have "ulp_from (j + (1074 - j)) \<bar>x\<bar> 1 = 1 / 2 ^ j"
    using assms(2,3) by (intro ulp_from_halve) (simp_all add: field_simps)
  then have "ulp53 \<bar>x\<bar> = 1 / 2 ^ j" using assms(1) by (simp add: ulp53_def)
  then show ?thesis by (simp add: rnd53_def Let_def)
qed

lemma rnd53_v0: "rnd53 (5404319552844595 / 18014398509481984) = 5404319552844595 / 18014398509481984"
  using rnd53_eval[of 54 "5404319552844595 / 18014398509481984"] by (simp add: round_even_def)

lemma rnd53_v1: "rnd53 (5404319552844595 / 9007199254740992) = 5404319552844595 / 9007199254740992"
  using rnd53_eval[of 53 "5404319552844595 / 9007199254740992"] by (simp add: round_even_def)

lemma rnd53_v2: "rnd53 (2026619832316723 / 2251799813685248) = 2026619832316723 / 2251799813685248"
  using rnd53_eval[of 53 "2026619832316723 / 2251799813685248"] by (simp add: round_even_def)

lemma rnd53_v3: "rnd53 (16212958658533785 / 18014398509481984) = 2026619832316723 / 2251799813685248"
  using rnd53_eval[of 53 "16212958658533785 / 18014398509481984"] by (simp add: round_even_def)

lemma rnd53_v4: "rnd53 (5404319552844595 / 4503599627370496) = 5404319552844595 / 4503599627370496"
  using rnd53_eval[of 52 "5404319552844595 / 4503599627370496"] by (simp add: round_even_def)

lemma rnd53_v5: "rnd53 (27021597764222975 / 18014398509481984) = 3 / 2"
  using rnd53_eval[of 52 "27021597764222975 / 18014398509481984"] by (simp add: round_even_def)

lemma rnd53_v6: "rnd53 (3 / 2) = 3 / 2"
  using rnd53_eval[of 52 "3 / 2"] by (simp add: round_even_def)

lemma rnd53_v7: "rnd53 (2026619832316723 / 1125899906842624) = 2026619832316723 / 1125899906842624"
  using rnd53_eval[of 52 "2026619832316723 / 1125899906842624"] by (simp add: round_even_def)

lemma rnd53_v8: "rnd53 (16212958658533785 / 9007199254740992) = 2026619832316723 / 1125899906842624"
  using rnd53_eval[of 52 "16212958658533785 / 9007199254740992"] by (simp add: round_even_def)

lemma rnd53_v9: "rnd53 (37830236869912165 / 18014398509481984) = 4728779608739021 / 2251799813685248"
  using rnd53_eval[of 51 "37830236869912165 / 18014398509481984"] by (simp add: round_even_def)

lemma rnd53_v10: "rnd53 (4728779608739021 / 2251799813685248) = 4728779608739021 / 2251799813685248"
  using rnd53_eval[of 51 "4728779608739021 / 2251799813685248"] by (simp add: round_even_def)

lemma rnd53_v11: "rnd53 (37830236869912168 / 5404319552844595) = 7881299347898369 / 1125899906842624"
  using rnd53_eval[of 50 "37830236869912168 / 5404319552844595"] by (simp add: round_even_def)

lemma ex_hold_accel:
  "accel ex_rne inv2 ex_robot (Vec [1, 0]) (Vec [0, 0]) (Vec [20, 40]) = Inr (Vec [0, 0])"
  by code_simp

lemma ex_hold_deriv:
  "deriv_fun ex_rne inv2 ex_robot (TorqueFun ex_hold) t [1, 0, 0, 0] = Inr [0, 0, 0, 0]"
  by (simp add: deriv_fun_def fdyn_deriv_def Let_def n_ex ex_hold_def isreal_def ex_hold_accel)

lemma ex_hold_samples:
  "fdyn_samples (ex_solvers 10) ex_rne inv2 ex_robot ex_T (Vec [1, 0]) (TorqueFun ex_hold) None ''RK45'' =
   Some (Inr ([0, 1 / 2, 1, 3 / 2, 2, ex_T], [[1, 0, 0, 0], [1, 0, 0, 0], [1, 0, 0, 0], [1, 0, 0, 0], [1, 0, 0, 0], [1, 0, 0, 0]]))"
proof -
  let ?f = "deriv_fun ex_rne inv2 ex_robot (TorqueFun ex_hold)"
  let ?e = "euler (1 / 2) 10"
  let ?s0 = "\<lparr>e_t = 0, e_y = [1, 0, 0, 0], e_status = Running, e_bound = ex_T, e_left = 10\<rparr>"
  let ?s1 = "\<lparr>e_t = 1 / 2, e_y = [1, 0, 0, 0], e_status = Running, e_bound = ex_T, e_left = 9\<rparr>"
  let ?s2 = "\<lparr>e_t = 1, e_y = [1, 0, 0, 0], e_status = Running, e_bound = ex_T, e_left = 8\<rparr>"
  let ?s3 = "\<lparr>e_t = 3 / 2, e_y = [1, 0, 0, 0], e_status = Running, e_bound = ex_T, e_left = 7\<rparr>"
  let ?s4 = "\<lparr>e_t = 2, e_y = [1, 0, 0, 0], e_status = Running, e_bound = ex_T, e_left = 6\<rparr>"
  let ?s5 = "\<lparr>e_t = ex_T, e_y = [1, 0, 0, 0], e_status = Finished, e_bound = ex_T, e_left = 5\<rparr>"
  have st0: "run ?f (solver_step ?e ?s0) = Inr ?s1"
    by (simp add: euler_step ex_hold_deriv ex_T_def Let_def)
  have st1: "run ?f (solver_step ?e ?s1) = Inr ?s2"
    by (simp add: euler_step ex_hold_deriv ex_T_def Let_def)
  have st2: "run ?f (solver_step ?e ?s2) = Inr ?s3"
    by (simp add: euler_step ex_hold_deriv ex_T_def Let_def)
  have st3: "run ?f (solver_step ?e ?s3) = Inr ?s4"
    by (simp add: euler_step ex_hold_deriv ex_T_def Let_def)
  have st4: "run ?f (solver_step ?e ?s4) = Inr ?s5"
    by (simp add: euler_step ex_hold_deriv ex_T_def Let_def)
  have "fdyn_samples (ex_solvers 10) ex_rne inv2 ex_robot ex_T (Vec [1, 0]) (TorqueFun ex_hold) None ''RK45'' =
        fdyn_loop ?e ?f ?s0 [0] [[1, 0, 0, 0]]"
    by (simp add: fdyn_samples_def ex_setup)
  also have "\<dots> = fdyn_loop ?e ?f ?s1 [0, 1 / 2] [[1, 0, 0, 0], [1, 0, 0, 0]]"
    using fdyn_loop_iter[of ?e ?s0 ?f ?s1 "[0]" "[[1, 0, 0, 0]]"] st0 by (simp add: euler_fields)
  also have "\<dots> = fdyn_loop ?e ?f ?s2 [0, 1 / 2, 1] [[1, 0, 0, 0], [1, 0, 0, 0], [1, 0, 0, 0]]"
    using fdyn_loop_iter[of ?e ?s1 ?f ?s2 "[0, 1 / 2]" "[[1, 0, 0, 0], [1, 0, 0, 0]]"] st1 by (simp add: euler_fields)
  also have "\<dots> = fdyn_loop ?e ?f ?s3 [0, 1 / 2, 1, 3 / 2] [[1, 0, 0, 0], [1, 0, 0, 0], [1, 0, 0, 0], [1, 0, 0, 0]]"
    using fdyn_loop_iter[of ?e ?s2 ?f ?s3 "[0, 1 / 2, 1]" "[[1, 0, 0, 0], [1, 0, 0, 0], [1, 0, 0, 0]]"] st2 by (simp add: euler_fields)
  also have "\<dots> = fdyn_loop ?e ?f ?s4 [0, 1 / 2, 1, 3 / 2, 2] [[1, 0, 0, 0], [1, 0, 0, 0], [1, 0, 0, 0], [1, 0, 0, 0], [1, 0, 0, 0]]"
    using fdyn_loop_iter[of ?e ?s3 ?f ?s4 "[0, 1 / 2, 1, 3 / 2]" "[[1, 0, 0, 0], [1, 0, 0, 0], [1, 0, 0, 0], [1, 0, 0, 0]]"] st3 by (simp add: euler_fields)
  also have "\<dots> = fdyn_loop ?e ?f ?s5 [0, 1 / 2, 1, 3 / 2, 2, ex_T] [[1, 0, 0, 0], [1, 0, 0, 0], [1, 0, 0, 0], [1, 0, 0, 0], [1, 0, 0, 0], [1, 0, 0, 0]]"
    using fdyn_loop_iter[of ?e ?s4 ?f ?s5 "[0, 1 / 2, 1, 3 / 2, 2]" "[[1, 0, 0, 0], [1, 0, 0, 0], [1, 0, 0, 0], [1, 0, 0, 0], [1, 0, 0, 0]]"] st4 by (simp add: euler_fields)
  also have "\<dots> = Some (Inr ([0, 1 / 2, 1, 3 / 2, 2, ex_T], [[1, 0, 0, 0], [1, 0, 0, 0], [1, 0, 0, 0], [1, 0, 0, 0], [1, 0, 0, 0], [1, 0, 0, 0]]))"
    by (rule fdyn_loop_done) (simp add: euler_fields)
  finally show ?thesis .
qed

lemma upt8: "[0..<8] = [0, 1, 2, 3, 4, 5, 6, 7]"
  by (simp add: upt_rec numeral_eq_Suc)

lemma ex_arange_double:
  "arange rnd53 0 ex_T ex_dt = Inr [0, 5404319552844595 / 18014398509481984, 5404319552844595 / 9007199254740992, 2026619832316723 / 2251799813685248, 5404319552844595 / 4503599627370496, 3 / 2, 2026619832316723 / 1125899906842624, 4728779608739021 / 2251799813685248]"
  by (simp add: arange_def Let_def ex_T_def ex_dt_def rnd53_v0 rnd53_v1 rnd53_v2 rnd53_v3 rnd53_v4 rnd53_v5 rnd53_v6 rnd53_v7 rnd53_v8 rnd53_v9 rnd53_v10 rnd53_v11 upt8)

lemma ex_interp_hold:
  "interp1d [0, 1 / 2, 1, 3 / 2, 2, ex_T] [[1, 0, 0, 0], [1, 0, 0, 0], [1, 0, 0, 0], [1, 0, 0, 0], [1, 0, 0, 0], [1, 0, 0, 0]]
     [0, 5404319552844595 / 18014398509481984, 5404319552844595 / 9007199254740992, 2026619832316723 / 2251799813685248, 5404319552844595 / 4503599627370496, 3 / 2, 2026619832316723 / 1125899906842624, 4728779608739021 / 2251799813685248] = Inr [[1, 0, 0, 0], [1, 0, 0, 0], [1, 0, 0, 0], [1, 0, 0, 0], [1, 0, 0, 0], [1, 0, 0, 0], [1, 0, 0, 0], [1, 0, 0, 0]]"
  by (simp add: interp1d_def interp_at_def searchsorted_def ex_T_def Let_def)

text \<open>
  Claim C6, as the code has it. When \<^verbatim>\<open>fdyn\<close> returns a trajectory for an output interval
  \<open>dt\<close>, its times are \<^verbatim>\<open>np.arange(0, T, dt)\<close>; in exact arithmetic and for \<open>dt > 0\<close> these are
  \<open>0, dt, 2 dt, \<dots>\<close>, exactly the multiples of \<open>dt\<close> below \<open>T\<close>. Its \<open>q\<close> and \<open>qd\<close> are the two
  halves of the interpolation of the integrator's samples at those times, and every time
  lies between the smallest and the largest time of the integrator's samples, so not after
  the last one when these are in order: nothing is extrapolated.
\<close>
theorem fdyn_resample_grid:
  assumes samples: "fdyn_samples solvers rne linalg_inv rob T q0 torqfun qd0 solver = Some (Inr (tarray, xarray))"
    and res: "fdyn rnd solvers rne linalg_inv rob T q0 torqfun qd0 solver (Some d) = Some (Inr traj)"
  shows "arange rnd 0 T d = Inr (traj_t traj) \<and>
         (rnd = (\<lambda>x. x) \<and> 0 < d \<longrightarrow>
            traj_t traj = map (\<lambda>i. real i * d) [0..<nat \<lceil>T / d\<rceil>] \<and>
            set (traj_t traj) = {\<tau>. \<exists>i::nat. \<tau> = real i * d \<and> \<tau> < T}) \<and>
         (case interp1d tarray xarray (traj_t traj) of
            Inr xnew \<Rightarrow> traj_q traj = map (take (n_of rob)) xnew \<and>
                         traj_qd traj = map (drop (n_of rob)) xnew
          | Inl e \<Rightarrow> False) \<and>
         (\<forall>\<tau> \<in> set (traj_t traj). Min (set tarray) \<le> \<tau> \<and> \<tau> \<le> Max (set tarray)) \<and>
         (sorted tarray \<longrightarrow> (\<forall>\<tau> \<in> set (traj_t traj). \<tau> \<le> last tarray))"
proof -
  have rect: "list_all (\<lambda>x. length x = length (hd xarray)) xarray"
  proof (rule ccontr)
    assume "\<not> list_all (\<lambda>x. length x = length (hd xarray)) xarray"
    then show False using res by (simp add: fdyn_of_samples[OF samples])
  qed
  have e: "ebind (arange rnd 0 T d) (\<lambda>tnew.
             ebind (interp1d tarray xarray tnew) (\<lambda>xnew.
               Inr \<lparr>traj_t = tnew, traj_q = map (take (n_of rob)) xnew,
                    traj_qd = map (drop (n_of rob)) xnew\<rparr>)) = Inr traj"
    using res rect by (simp add: fdyn_of_samples[OF samples])
  obtain g where g: "arange rnd 0 T d = Inr g"
  proof (cases "arange rnd 0 T d")
    case (Inl err)
    then show ?thesis using e by simp
  next
    case (Inr g)
    then show ?thesis using that by simp
  qed
  have e2: "ebind (interp1d tarray xarray g) (\<lambda>xnew.
               Inr \<lparr>traj_t = g, traj_q = map (take (n_of rob)) xnew,
                    traj_qd = map (drop (n_of rob)) xnew\<rparr>) = Inr traj"
    using e g by simp
  obtain xnew where x: "interp1d tarray xarray g = Inr xnew"
    and t: "traj = \<lparr>traj_t = g, traj_q = map (take (n_of rob)) xnew,
                  traj_qd = map (drop (n_of rob)) xnew\<rparr>"
  proof (cases "interp1d tarray xarray g")
    case (Inl err)
    then show ?thesis using e2 by simp
  next
    case (Inr xnew)
    then show ?thesis using e2 that by simp
  qed
  have tt: "traj_t traj = g" using t by simp
  have a: "arange rnd 0 T d = Inr (traj_t traj)" using g tt by simp
  have ex: "rnd = (\<lambda>x. x) \<and> 0 < d \<longrightarrow>
            traj_t traj = map (\<lambda>i. real i * d) [0..<nat \<lceil>T / d\<rceil>] \<and>
            set (traj_t traj) = {\<tau>. \<exists>i::nat. \<tau> = real i * d \<and> \<tau> < T}"
  proof
    assume h: "rnd = (\<lambda>x. x) \<and> 0 < d"
    then have "arange rnd 0 T d = Inr (map (\<lambda>i. real i * d) [0..<nat \<lceil>T / d\<rceil>])"
      using arange_exact[of d T] by simp
    then have "traj_t traj = map (\<lambda>i. real i * d) [0..<nat \<lceil>T / d\<rceil>]" using a by simp
    then show "traj_t traj = map (\<lambda>i. real i * d) [0..<nat \<lceil>T / d\<rceil>] \<and>
            set (traj_t traj) = {\<tau>. \<exists>i::nat. \<tau> = real i * d \<and> \<tau> < T}"
      using grid_set[of d T] h by (simp only:)
  qed
  have b: "\<forall>\<tau> \<in> set g. Min (set tarray) \<le> \<tau> \<and> \<tau> \<le> Max (set tarray)"
    using interp1d_bounds[OF x] by blast
  have ne: "tarray \<noteq> []"
  proof
    assume "tarray = []"
    then have "\<exists>err. interp1d tarray xarray g = Inl err" by (simp add: interp1d_def)
    then show False using x by auto
  qed
  have l: "sorted tarray \<longrightarrow> (\<forall>\<tau> \<in> set g. \<tau> \<le> last tarray)"
  proof
    assume "sorted tarray"
    then have "Max (set tarray) = last tarray" using ne by (rule Max_sorted_last)
    then show "\<forall>\<tau> \<in> set g. \<tau> \<le> last tarray" using b by simp
  qed
  have q: "traj_q traj = map (take (n_of rob)) xnew \<and> traj_qd traj = map (drop (n_of rob)) xnew"
    using t by simp
  have i: "(case interp1d tarray xarray (traj_t traj) of
            Inr xnew \<Rightarrow> traj_q traj = map (take (n_of rob)) xnew \<and>
                         traj_qd traj = map (drop (n_of rob)) xnew
          | Inl e \<Rightarrow> False)"
    unfolding tt x using q by simp
  show ?thesis
    using a ex i b l unfolding tt by (simp only:)
qed

theorem fdyn_resample_grid_witness:
  "fdyn (\<lambda>x. x) (ex_solvers 10) ex_rne inv2 ex_robot 1 (Vec [1, 0]) NoTorque None ''RK45'' (Some (2 / 5)) =
     Some (Inr \<lparr>traj_t = [0, 2 / 5, 4 / 5],
            traj_q = [[1, 0], [1, 0], [- (1 / 2), - (3 / 2)]],
            traj_qd = [[0, 0], [- 4, - 4], [- 11, - (55 / 8)]]\<rparr>) \<and>
   traj_t \<lparr>traj_t = [0, 2 / 5, 4 / 5],
            traj_q = [[1, 0], [1, 0], [- (1 / 2), - (3 / 2)]],
            traj_qd = [[0, 0], [- 4, - 4], [- 11, - (55 / 8)]]\<rparr> =
     map (\<lambda>i. real i * (2 / 5)) [0..<nat \<lceil>1 / (2 / 5 :: real)\<rceil>] \<and>
   set (traj_t \<lparr>traj_t = [0, 2 / 5, 4 / 5],
            traj_q = [[1, 0], [1, 0], [- (1 / 2), - (3 / 2)]],
            traj_qd = [[0, 0], [- 4, - 4], [- 11, - (55 / 8)]]\<rparr>) =
     {\<tau>. \<exists>i::nat. \<tau> = real i * (2 / 5) \<and> \<tau> < 1}"
proof -
  have s: "fdyn_samples (ex_solvers 10) ex_rne inv2 ex_robot 1 (Vec [1, 0]) NoTorque None ''RK45'' =
     Some (Inr ([0, 1 / 2, 1], [[1, 0, 0, 0], [1, 0, - 5, - 5], [- (3 / 2), - (5 / 2), - 15, - (65 / 8)]]))"
    by code_simp
  have f: "fdyn (\<lambda>x. x) (ex_solvers 10) ex_rne inv2 ex_robot 1 (Vec [1, 0]) NoTorque None ''RK45'' (Some (2 / 5)) =
     Some (Inr \<lparr>traj_t = [0, 2 / 5, 4 / 5],
            traj_q = [[1, 0], [1, 0], [- (1 / 2), - (3 / 2)]],
            traj_qd = [[0, 0], [- 4, - 4], [- 11, - (55 / 8)]]\<rparr>)"
    by code_simp
  have d: "(\<lambda>x::real. x) = (\<lambda>x. x) \<and> (0::real) < 2 / 5" by simp
  show ?thesis
    using fdyn_resample_grid [OF s f] f d by blast
qed


text \<open>
  In double arithmetic the times need not stay below \<open>T\<close>: for \<open>T = 2.1\<close> and \<open>dt = 0.3\<close>
  (the doubles nearest to them) the quotient \<open>T / dt\<close> rounds to a number above 7, so there
  are eight times, and the last one, \<open>7 dt\<close>, rounds to \<open>T\<close>. The robot is held at rest
  here, and the interpolation at \<open>T\<close> is the integrator's last sample.
\<close>
theorem fdyn_resample_reaches_T_counterexample:
  "fdyn rnd53 (ex_solvers 10) ex_rne inv2 ex_robot ex_T (Vec [1, 0]) (TorqueFun ex_hold) None ''RK45''
     (Some ex_dt) =
     Some (Inr \<lparr>traj_t = [0, 5404319552844595 / 18014398509481984, 5404319552844595 / 9007199254740992, 2026619832316723 / 2251799813685248, 5404319552844595 / 4503599627370496, 3 / 2, 2026619832316723 / 1125899906842624, 4728779608739021 / 2251799813685248],
            traj_q = [[1, 0], [1, 0], [1, 0], [1, 0], [1, 0], [1, 0], [1, 0], [1, 0]],
            traj_qd = [[0, 0], [0, 0], [0, 0], [0, 0], [0, 0], [0, 0], [0, 0], [0, 0]]\<rparr>) \<and>
   last [0, 5404319552844595 / 18014398509481984, 5404319552844595 / 9007199254740992, 2026619832316723 / 2251799813685248, 5404319552844595 / 4503599627370496, 3 / 2, 2026619832316723 / 1125899906842624, 4728779608739021 / 2251799813685248] = ex_T"
  using fdyn_of_samples[OF ex_hold_samples, of rnd53 "Some ex_dt"]
  by (simp add: ex_arange_double ex_interp_hold n_ex) (simp add: ex_T_def)

section \<open>The torque law inside the integration\<close>

lemma fdyn_deriv_bad_torque:
  assumes "length (tf rob t (take (n_of rob) x) (drop (n_of rob) x)) \<noteq> n_of rob \<or>
           \<not> list_all isreal (tf rob t (take (n_of rob) x) (drop (n_of rob) x))"
  shows "fdyn_deriv rne linalg_inv rob t x (TorqueFun tf) = Inl torque_error"
  using assms by (auto simp: fdyn_deriv_def Let_def)

text \<open>
  Claim C7. When, in some iteration of the loop, the integrator's step gets as far as a call
  of the derivative on which the torque law returns a vector of a length other than \<open>n\<close> or
  with an entry that is not real, \<^verbatim>\<open>fdyn\<close> ends with the error of the torque check and
  returns no trajectory. Without a torque law the derivative is the one of the law that
  returns \<open>n\<close> zeros.
\<close>
theorem fdyn_torque_contract:
  assumes start: "fdyn_setup solvers rne linalg_inv rob T q0 (TorqueFun tf) qd0 solver = Inr (integ, s0, x0)"
    and reach: "loop_reaches integ (deriv_fun rne linalg_inv rob (TorqueFun tf)) (s0, [0], [x0]) (s, tlist, xlist)"
    and running: "solver_status integ s = Running"
    and call: "calls (deriv_fun rne linalg_inv rob (TorqueFun tf)) (solver_step integ s) t x"
    and bad: "length (tf rob t (take (n_of rob) x) (drop (n_of rob) x)) \<noteq> n_of rob \<or>
              \<not> list_all isreal (tf rob t (take (n_of rob) x) (drop (n_of rob) x))"
  shows "fdyn rnd solvers rne linalg_inv rob T q0 (TorqueFun tf) qd0 solver dt = Some (Inl torque_error) \<and>
         fdyn_deriv rne linalg_inv rob t' x' NoTorque =
         fdyn_deriv rne linalg_inv rob t' x' (TorqueFun (\<lambda>rob t q qd. replicate (n_of rob) 0))"
proof -
  let ?f = "deriv_fun rne linalg_inv rob (TorqueFun tf)"
  have "?f t x = Inl torque_error"
    using fdyn_deriv_bad_torque[of tf rob t x rne linalg_inv] bad by (simp add: deriv_fun_def)
  then have err: "run ?f (solver_step integ s) = Inl torque_error"
    using call by (rule run_calls_error[rotated])
  have "fdyn_loop integ ?f s0 [0] [x0] = fdyn_loop integ ?f s tlist xlist"
    using loop_reaches_same[OF reach] by simp
  also have "\<dots> = Some (Inl torque_error)"
    using running err by (rule fdyn_loop_step_error)
  finally have "fdyn_samples solvers rne linalg_inv rob T q0 (TorqueFun tf) qd0 solver = Some (Inl torque_error)"
    by (simp add: fdyn_samples_def start)
  then have 1: "fdyn rnd solvers rne linalg_inv rob T q0 (TorqueFun tf) qd0 solver dt = Some (Inl torque_error)"
    by (simp add: fdyn_def)
  have 2: "fdyn_deriv rne linalg_inv rob t' x' NoTorque =
         fdyn_deriv rne linalg_inv rob t' x' (TorqueFun (\<lambda>rob t q qd. replicate (n_of rob) 0))"
    by (simp add: fdyn_deriv_def Let_def zeros_def isreal_def list_all_iff map_replicate_const)
  show ?thesis using 1 2 by simp
qed

theorem fdyn_torque_contract_witness:
  "fdyn (\<lambda>x. x) (ex_solvers 10) ex_rne inv2 ex_robot 1 (Vec [1, 0]) (TorqueFun ex_short) None ''RK45'' None =
     Some (Inl torque_error) \<and>
   fdyn_deriv ex_rne inv2 ex_robot 0 [1, 0, 0, 0] NoTorque =
   fdyn_deriv ex_rne inv2 ex_robot 0 [1, 0, 0, 0] (TorqueFun (\<lambda>rob t q qd. replicate (n_of rob) 0))"
proof -
  let ?f = "deriv_fun ex_rne inv2 ex_robot (TorqueFun ex_short)"
  let ?s0 = "\<lparr>e_t = 0, e_y = [1, 0, 0, 0], e_status = Running, e_bound = 1, e_left = 10\<rparr>"
  let ?s1 = "\<lparr>e_t = 1 / 2, e_y = [1, 0, - 5, - 5], e_status = Running, e_bound = 1, e_left = 9\<rparr>"
  have su: "fdyn_setup (ex_solvers 10) ex_rne inv2 ex_robot 1 (Vec [1, 0]) (TorqueFun ex_short) None ''RK45'' =
      Inr (euler (1 / 2) 10, ?s0, [1, 0, 0, 0])"
    by (simp add: ex_setup)
  have st0: "run ?f (solver_step (euler (1 / 2) 10) ?s0) = Inr ?s1"
    by (simp add: euler_step ex_short_deriv0)
  have r0: "loop_reaches (euler (1 / 2) 10) ?f (?s0, [0], [[1, 0, 0, 0]]) (?s0, [0], [[1, 0, 0, 0]])"
    by (rule reaches_start)
  have r1: "loop_reaches (euler (1 / 2) 10) ?f (?s0, [0], [[1, 0, 0, 0]])
      (?s1, [0] @ [solver_t (euler (1 / 2) 10) ?s1], [[1, 0, 0, 0]] @ [solver_y (euler (1 / 2) 10) ?s1])"
    by (rule reaches_step[OF r0 _ st0]) (simp_all add: euler_fields)
  have c: "calls ?f (solver_step (euler (1 / 2) 10) ?s1) (1 / 2) [1, 0, - 5, - 5]"
    by (simp add: euler_step calls_here)
  have bad: "length (ex_short ex_robot (1 / 2) (take (n_of ex_robot) [1, 0, - 5, - 5])
                (drop (n_of ex_robot) [1, 0, - 5, - 5])) \<noteq> n_of ex_robot \<or>
             \<not> list_all isreal (ex_short ex_robot (1 / 2) (take (n_of ex_robot) [1, 0, - 5, - 5])
                (drop (n_of ex_robot) [1, 0, - 5, - 5]))"
    by (simp add: ex_short_def n_ex)
  show ?thesis
    using fdyn_torque_contract [OF su r1 _ c bad, where dt = None and rnd = "\<lambda>x. x"
        and t' = 0 and x' = "[1, 0, 0, 0]"]
    by (simp add: euler_fields)
qed

section \<open>Failure of the integrator\<close>

text \<open>
  Claim C8. When, in some iteration of the loop, the integrator's step returns and its status
  is then \<open>failed\<close>, \<^verbatim>\<open>fdyn\<close> ends with the error of a failed integration, which is not the
  error of the torque check, and returns no trajectory.
\<close>
theorem fdyn_integrator_failure:
  assumes start: "fdyn_setup solvers rne linalg_inv rob T q0 torqfun qd0 solver = Inr (integ, s0, x0)"
    and reach: "loop_reaches integ (deriv_fun rne linalg_inv rob torqfun) (s0, [0], [x0]) (s, tlist, xlist)"
    and running: "solver_status integ s = Running"
    and step: "run (deriv_fun rne linalg_inv rob torqfun) (solver_step integ s) = Inr s'"
    and failed: "solver_status integ s' = Failed"
  shows "fdyn rnd solvers rne linalg_inv rob T q0 torqfun qd0 solver dt = Some (Inl failed_error) \<and>
         failed_error \<noteq> torque_error"
proof -
  let ?f = "deriv_fun rne linalg_inv rob torqfun"
  have "fdyn_loop integ ?f s0 [0] [x0] = fdyn_loop integ ?f s tlist xlist"
    using loop_reaches_same[OF reach] by simp
  also have "\<dots> = Some (Inl failed_error)"
    using running step failed by (rule fdyn_loop_step_failed)
  finally have "fdyn_samples solvers rne linalg_inv rob T q0 torqfun qd0 solver = Some (Inl failed_error)"
    by (simp add: fdyn_samples_def start)
  then show ?thesis
    by (simp add: fdyn_def failed_error_def torque_error_def)
qed


theorem fdyn_integrator_failure_witness:
  "fdyn (\<lambda>x. x) (ex_solvers 1) ex_rne inv2 ex_robot 1 (Vec [1, 0]) (TorqueFun ex_pd) None ''RK45'' None =
     Some (Inl failed_error) \<and> failed_error \<noteq> torque_error"
proof -
  let ?f = "deriv_fun ex_rne inv2 ex_robot (TorqueFun ex_pd)"
  let ?s0 = "\<lparr>e_t = 0, e_y = [1, 0, 0, 0], e_status = Running, e_bound = 1, e_left = 1\<rparr>"
  let ?s1 = "\<lparr>e_t = 1 / 2, e_y = [1, 0, - (21 / 4), - 5], e_status = Running, e_bound = 1, e_left = 0\<rparr>"
  have su: "fdyn_setup (ex_solvers 1) ex_rne inv2 ex_robot 1 (Vec [1, 0]) (TorqueFun ex_pd) None ''RK45'' =
      Inr (euler (1 / 2) 1, ?s0, [1, 0, 0, 0])"
    by (simp add: ex_setup)
  have st0: "run ?f (solver_step (euler (1 / 2) 1) ?s0) = Inr ?s1"
    by (simp add: euler_step ex_pd_deriv0)
  have r0: "loop_reaches (euler (1 / 2) 1) ?f (?s0, [0], [[1, 0, 0, 0]]) (?s0, [0], [[1, 0, 0, 0]])"
    by (rule reaches_start)
  have r1: "loop_reaches (euler (1 / 2) 1) ?f (?s0, [0], [[1, 0, 0, 0]])
      (?s1, [0] @ [solver_t (euler (1 / 2) 1) ?s1], [[1, 0, 0, 0]] @ [solver_y (euler (1 / 2) 1) ?s1])"
    by (rule reaches_step[OF r0 _ st0]) (simp_all add: euler_fields)
  have st1: "run ?f (solver_step (euler (1 / 2) 1) ?s1) = Inr (?s1\<lparr>e_status := Failed\<rparr>)"
    by (simp add: euler_step)
  show ?thesis
    using fdyn_integrator_failure [OF su r1 _ st1, where dt = None and rnd = "\<lambda>x. x"]
    by (simp add: euler_fields)
qed


section \<open>The copies made by \<^verbatim>\<open>nofriction\<close> and \<^verbatim>\<open>perterb\<close>\<close>

subsection \<open>Stores that only grow\<close>

lemma grows_refl: "grows st st"
  by (simp add: grows_def)

lemma grows_trans: "grows st st1 \<Longrightarrow> grows st1 st2 \<Longrightarrow> grows st st2"
  by (auto simp: grows_def)

lemma grows_unchanged: "wf_store st \<Longrightarrow> grows st st' \<Longrightarrow> unchanged st st'"
  by (simp add: wf_store_def grows_def unchanged_def)

lemma grows_set_robot:
  "grows st0 st \<Longrightarrow> next_addr st0 \<le> b \<Longrightarrow> grows st0 (st\<lparr>robot_at := (robot_at st)(b \<mapsto> x)\<rparr>)"
  by (simp add: grows_def)

lemma grows_set_link:
  "grows st0 st \<Longrightarrow> next_addr st0 \<le> b \<Longrightarrow> grows st0 (st\<lparr>link_at := (link_at st)(b \<mapsto> x)\<rparr>)"
  by (simp add: grows_def)

lemma wf_robotD: "wf_store st \<Longrightarrow> robot_at st a = Some y \<Longrightarrow> a < next_addr st"
  unfolding wf_store_def by blast

lemma wf_linkD: "wf_store st \<Longrightarrow> link_at st a = Some y \<Longrightarrow> a < next_addr st"
  unfolding wf_store_def by blast

lemma wf_arrayD: "wf_store st \<Longrightarrow> array_at st a = Some y \<Longrightarrow> a < next_addr st"
  unfolding wf_store_def by blast

lemma wf_storeI:
  assumes "\<And>a y. robot_at st a = Some y \<Longrightarrow> a < next_addr st"
    and "\<And>a y. link_at st a = Some y \<Longrightarrow> a < next_addr st"
    and "\<And>a y. array_at st a = Some y \<Longrightarrow> a < next_addr st"
  shows "wf_store st"
  unfolding wf_store_def using assms by blast

lemma wf_set_robot:
  assumes "wf_store st" "b < next_addr st"
  shows "wf_store (st\<lparr>robot_at := (robot_at st)(b \<mapsto> x)\<rparr>)"
proof (rule wf_storeI)
  fix a y assume "robot_at (st\<lparr>robot_at := (robot_at st)(b \<mapsto> x)\<rparr>) a = Some y"
  then show "a < next_addr (st\<lparr>robot_at := (robot_at st)(b \<mapsto> x)\<rparr>)"
    using assms wf_robotD[OF assms(1), of a] by (cases "a = b") simp_all
next
  fix a y assume "link_at (st\<lparr>robot_at := (robot_at st)(b \<mapsto> x)\<rparr>) a = Some y"
  then show "a < next_addr (st\<lparr>robot_at := (robot_at st)(b \<mapsto> x)\<rparr>)"
    using wf_linkD[OF assms(1), of a] by simp
next
  fix a y assume "array_at (st\<lparr>robot_at := (robot_at st)(b \<mapsto> x)\<rparr>) a = Some y"
  then show "a < next_addr (st\<lparr>robot_at := (robot_at st)(b \<mapsto> x)\<rparr>)"
    using wf_arrayD[OF assms(1), of a] by simp
qed

lemma wf_set_link:
  assumes "wf_store st" "b < next_addr st"
  shows "wf_store (st\<lparr>link_at := (link_at st)(b \<mapsto> x)\<rparr>)"
proof (rule wf_storeI)
  fix a y assume "robot_at (st\<lparr>link_at := (link_at st)(b \<mapsto> x)\<rparr>) a = Some y"
  then show "a < next_addr (st\<lparr>link_at := (link_at st)(b \<mapsto> x)\<rparr>)"
    using wf_robotD[OF assms(1), of a] by simp
next
  fix a y assume "link_at (st\<lparr>link_at := (link_at st)(b \<mapsto> x)\<rparr>) a = Some y"
  then show "a < next_addr (st\<lparr>link_at := (link_at st)(b \<mapsto> x)\<rparr>)"
    using assms wf_linkD[OF assms(1), of a] by (cases "a = b") simp_all
next
  fix a y assume "array_at (st\<lparr>link_at := (link_at st)(b \<mapsto> x)\<rparr>) a = Some y"
  then show "a < next_addr (st\<lparr>link_at := (link_at st)(b \<mapsto> x)\<rparr>)"
    using wf_arrayD[OF assms(1), of a] by simp
qed

lemma wf_bump:
  assumes "wf_store st"
  shows "wf_store (st\<lparr>next_addr := Suc (next_addr st)\<rparr>)"
proof (rule wf_storeI)
  fix a y assume "robot_at (st\<lparr>next_addr := Suc (next_addr st)\<rparr>) a = Some y"
  then show "a < next_addr (st\<lparr>next_addr := Suc (next_addr st)\<rparr>)"
    using wf_robotD[OF assms, of a] by simp
next
  fix a y assume "link_at (st\<lparr>next_addr := Suc (next_addr st)\<rparr>) a = Some y"
  then show "a < next_addr (st\<lparr>next_addr := Suc (next_addr st)\<rparr>)"
    using wf_linkD[OF assms, of a] by simp
next
  fix a y assume "array_at (st\<lparr>next_addr := Suc (next_addr st)\<rparr>) a = Some y"
  then show "a < next_addr (st\<lparr>next_addr := Suc (next_addr st)\<rparr>)"
    using wf_arrayD[OF assms, of a] by simp
qed

lemma wf_set_array:
  assumes "wf_store st" "b < next_addr st"
  shows "wf_store (st\<lparr>array_at := (array_at st)(b \<mapsto> x)\<rparr>)"
proof (rule wf_storeI)
  fix a y assume "robot_at (st\<lparr>array_at := (array_at st)(b \<mapsto> x)\<rparr>) a = Some y"
  then show "a < next_addr (st\<lparr>array_at := (array_at st)(b \<mapsto> x)\<rparr>)"
    using wf_robotD[OF assms(1), of a] by simp
next
  fix a y assume "link_at (st\<lparr>array_at := (array_at st)(b \<mapsto> x)\<rparr>) a = Some y"
  then show "a < next_addr (st\<lparr>array_at := (array_at st)(b \<mapsto> x)\<rparr>)"
    using wf_linkD[OF assms(1), of a] by simp
next
  fix a y assume "array_at (st\<lparr>array_at := (array_at st)(b \<mapsto> x)\<rparr>) a = Some y"
  then show "a < next_addr (st\<lparr>array_at := (array_at st)(b \<mapsto> x)\<rparr>)"
    using assms wf_arrayD[OF assms(1), of a] by (cases "a = b") simp_all
qed

lemma new_link_eq:
  "new_link l st = (next_addr st,
     (st\<lparr>next_addr := Suc (next_addr st)\<rparr>)\<lparr>link_at := (link_at st)(next_addr st \<mapsto> l)\<rparr>)"
  by (simp add: new_link_def)

lemma new_robot_eq:
  "new_robot ro st = (next_addr st,
     (st\<lparr>next_addr := Suc (next_addr st)\<rparr>)\<lparr>robot_at := (robot_at st)(next_addr st \<mapsto> ro)\<rparr>)"
  by (simp add: new_robot_def)

lemma new_array_eq:
  "new_array v st = (next_addr st,
     (st\<lparr>next_addr := Suc (next_addr st)\<rparr>)\<lparr>array_at := (array_at st)(next_addr st \<mapsto> v)\<rparr>)"
  by (simp add: new_array_def)

lemma new_link_props:
  assumes "new_link l st = (b, st')"
  shows "b = next_addr st" "next_addr st' = Suc (next_addr st)" "grows st st'"
    "link_at st' b = Some l" "robot_at st' = robot_at st" "array_at st' = array_at st"
    "dom (link_at st) \<subseteq> dom (link_at st')"
  using assms by (auto simp: new_link_def grows_def)

lemma new_link_wf:
  assumes "new_link l st = (b, st')" "wf_store st"
  shows "wf_store st'"
proof -
  have "st' = snd (new_link l st)" using assms(1) by simp
  then have "st' = (st\<lparr>next_addr := Suc (next_addr st)\<rparr>)\<lparr>link_at :=
      (link_at st)(next_addr st \<mapsto> l)\<rparr>"
    unfolding new_link_eq snd_conv .
  then show ?thesis using wf_set_link[OF wf_bump[OF assms(2)], of "next_addr st" l] by simp
qed

lemma new_robot_props:
  assumes "new_robot ro st = (b, st')"
  shows "b = next_addr st" "next_addr st' = Suc (next_addr st)" "grows st st'"
    "robot_at st' b = Some ro" "link_at st' = link_at st" "array_at st' = array_at st"
  using assms by (auto simp: new_robot_def grows_def)

lemma new_robot_wf:
  assumes "new_robot ro st = (b, st')" "wf_store st"
  shows "wf_store st'"
proof -
  have "st' = snd (new_robot ro st)" using assms(1) by simp
  then have "st' = (st\<lparr>next_addr := Suc (next_addr st)\<rparr>)\<lparr>robot_at :=
      (robot_at st)(next_addr st \<mapsto> ro)\<rparr>"
    unfolding new_robot_eq snd_conv .
  then show ?thesis using wf_set_robot[OF wf_bump[OF assms(2)], of "next_addr st" ro] by simp
qed

lemma new_array_props:
  assumes "new_array v st = (b, st')"
  shows "b = next_addr st" "next_addr st' = Suc (next_addr st)" "grows st st'"
    "array_at st' b = Some v" "link_at st' = link_at st" "robot_at st' = robot_at st"
  using assms by (auto simp: new_array_def grows_def)

lemma new_array_wf:
  assumes "new_array v st = (b, st')" "wf_store st"
  shows "wf_store st'"
proof -
  have "st' = snd (new_array v st)" using assms(1) by simp
  then have "st' = (st\<lparr>next_addr := Suc (next_addr st)\<rparr>)\<lparr>array_at :=
      (array_at st)(next_addr st \<mapsto> v)\<rparr>"
    unfolding new_array_eq snd_conv .
  then show ?thesis using wf_set_array[OF wf_bump[OF assms(2)], of "next_addr st" v] by simp
qed

lemma link_nofriction_obj_props:
  assumes "link_nofriction_obj cl vs a st = Some (b, st')"
  shows "b = next_addr st" "next_addr st' = Suc (next_addr st)" "grows st st'"
    "robot_at st' = robot_at st" "array_at st' = array_at st"
    "dom (link_at st) \<subseteq> dom (link_at st')" "b \<in> dom (link_at st')"
    "wf_store st \<Longrightarrow> wf_store st'"
proof -
  obtain l where l: "link_at st a = Some l" and n: "new_link (link_nofriction cl vs l) st = (b, st')"
    using assms by (auto simp: link_nofriction_obj_def split: option.splits)
  show "b = next_addr st" "next_addr st' = Suc (next_addr st)" "grows st st'"
    "robot_at st' = robot_at st" "array_at st' = array_at st"
    "dom (link_at st) \<subseteq> dom (link_at st')"
    using new_link_props[OF n] by simp_all
  show "b \<in> dom (link_at st')" using new_link_props(4)[OF n] by blast
  show "wf_store st \<Longrightarrow> wf_store st'" using new_link_wf[OF n] .
qed

lemma nofriction_links_props:
  "nofriction_links cl vs xs st = Some (bs, st') \<Longrightarrow>
   grows st st' \<and> (wf_store st \<longrightarrow> wf_store st') \<and>
   (\<forall>b \<in> set bs. next_addr st \<le> b \<and> b < next_addr st' \<and> b \<in> dom (link_at st')) \<and>
   robot_at st' = robot_at st \<and> array_at st' = array_at st \<and>
   dom (link_at st) \<subseteq> dom (link_at st') \<and> next_addr st \<le> next_addr st'"
proof (induction xs arbitrary: st bs)
  case Nil
  then show ?case by (simp add: grows_refl)
next
  case (Cons a xs)
  obtain b st1 where h: "link_nofriction_obj cl vs a st = Some (b, st1)"
    using Cons.prems by (auto split: option.splits)
  obtain bs' where t: "nofriction_links cl vs xs st1 = Some (bs', st')" and bs: "bs = b # bs'"
    using Cons.prems h by (auto split: option.splits)
  note H = link_nofriction_obj_props[OF h]
  note IH = Cons.IH[OF t]
  have g: "grows st st'" using H(3) IH grows_trans by blast
  have w: "wf_store st \<longrightarrow> wf_store st'" using H(8) IH by blast
  have "b \<in> dom (link_at st')" using H(7) IH by blast
  moreover have "next_addr st \<le> b \<and> b < next_addr st'" using H(1,2) IH by simp
  moreover have "\<forall>c \<in> set bs'. next_addr st \<le> c \<and> c < next_addr st' \<and> c \<in> dom (link_at st')"
    using IH H(2) by auto
  ultimately have m: "\<forall>c \<in> set bs. next_addr st \<le> c \<and> c < next_addr st' \<and> c \<in> dom (link_at st')"
    using bs by simp
  have r: "robot_at st' = robot_at st \<and> array_at st' = array_at st" using H(4,5) IH by simp
  have d: "dom (link_at st) \<subseteq> dom (link_at st')" using H(6) IH by blast
  have n: "next_addr st \<le> next_addr st'" using H(2) IH by simp
  show ?case using g w m r d n by blast
qed

lemma nofriction_links_total:
  "set xs \<subseteq> dom (link_at st) \<Longrightarrow> \<exists>r. nofriction_links cl vs xs st = Some r"
proof (induction xs arbitrary: st)
  case Nil
  then show ?case by simp
next
  case (Cons a xs)
  then obtain l where l: "link_at st a = Some l" by auto
  obtain b st1 where h: "link_nofriction_obj cl vs a st = Some (b, st1)"
    using l by (cases "new_link (link_nofriction cl vs l) st") (simp add: link_nofriction_obj_def)
  have "set xs \<subseteq> dom (link_at st)" using Cons.prems by simp
  then have "set xs \<subseteq> dom (link_at st1)"
    using link_nofriction_obj_props(6)[OF h] by (rule subset_trans)
  then obtain r where "nofriction_links cl vs xs st1 = Some r" using Cons.IH by blast
  then show ?case using h by (cases r) simp
qed

lemma copy_links_props:
  "copy_links xs st = Some (bs, st') \<Longrightarrow>
   grows st st' \<and> (wf_store st \<longrightarrow> wf_store st') \<and>
   (\<forall>b \<in> set bs. next_addr st \<le> b \<and> b < next_addr st' \<and> b \<in> dom (link_at st')) \<and>
   robot_at st' = robot_at st \<and> array_at st' = array_at st \<and>
   dom (link_at st) \<subseteq> dom (link_at st') \<and> next_addr st \<le> next_addr st' \<and>
   length bs = length xs"
proof (induction xs arbitrary: st bs)
  case Nil
  then show ?case by (simp add: grows_refl)
next
  case (Cons a xs)
  obtain l where l: "link_at st a = Some l"
    using Cons.prems by (auto split: option.splits)
  obtain b st1 where h: "new_link l st = (b, st1)" by (cases "new_link l st")
  obtain bs' where t: "copy_links xs st1 = Some (bs', st')" and bs: "bs = b # bs'"
    using Cons.prems l h by (auto split: option.splits)
  note H = new_link_props[OF h]
  note W = new_link_wf[OF h]
  note IH = Cons.IH[OF t]
  have g: "grows st st'" using H IH grows_trans by blast
  have w: "wf_store st \<longrightarrow> wf_store st'" using W IH by blast
  have "b \<in> dom (link_at st')" using H IH by blast
  moreover have "next_addr st \<le> b \<and> b < next_addr st'" using H IH by simp
  moreover have "\<forall>c \<in> set bs'. next_addr st \<le> c \<and> c < next_addr st' \<and> c \<in> dom (link_at st')"
    using IH H by auto
  ultimately have m: "\<forall>c \<in> set bs. next_addr st \<le> c \<and> c < next_addr st' \<and> c \<in> dom (link_at st')"
    using bs by simp
  have r: "robot_at st' = robot_at st \<and> array_at st' = array_at st" using H IH by simp
  have d: "dom (link_at st) \<subseteq> dom (link_at st')" using H IH by blast
  have n: "next_addr st \<le> next_addr st'" using H IH by simp
  have len: "length bs = length (a # xs)" using bs IH by simp
  show ?case using g w m r d n len by blast
qed

lemma copy_links_total:
  "set xs \<subseteq> dom (link_at st) \<Longrightarrow> \<exists>r. copy_links xs st = Some r"
proof (induction xs arbitrary: st)
  case Nil
  then show ?case by simp
next
  case (Cons a xs)
  then obtain l where l: "link_at st a = Some l" by auto
  obtain b st1 where h: "new_link l st = (b, st1)" by (cases "new_link l st")
  have "set xs \<subseteq> dom (link_at st)" using Cons.prems by simp
  then have "set xs \<subseteq> dom (link_at st1)"
    using new_link_props[OF h] by blast
  then obtain r where "copy_links xs st1 = Some r" using Cons.IH by blast
  then show ?case using h l by (cases r) simp
qed

lemma perturb_link_props:
  assumes "perturb_link rand p r2 i st = Some st'"
  shows "robot_at st' = robot_at st" "array_at st' = array_at st" "next_addr st' = next_addr st"
    "dom (link_at st') = dom (link_at st)"
    "\<exists>ro. robot_at st r2 = Some ro \<and> i < length (ro_links ro) \<and>
          (\<forall>a. a \<noteq> ro_links ro ! i \<longrightarrow> link_at st' a = link_at st a)"
proof -
  obtain ro where ro: "robot_at st r2 = Some ro"
    using assms by (auto simp: perturb_link_def split: option.splits)
  have i: "i < length (ro_links ro)"
    using assms ro by (auto simp: perturb_link_def split: option.splits if_splits)
  obtain l where l: "link_at st (ro_links ro ! i) = Some l"
    using assms ro i by (auto simp: perturb_link_def split: option.splits if_splits)
  obtain l2 where st': "st' = st\<lparr>link_at := (link_at st)(ro_links ro ! i \<mapsto> l2)\<rparr>"
    using assms ro i l by (auto simp: perturb_link_def Let_def)
  show "robot_at st' = robot_at st" "array_at st' = array_at st" "next_addr st' = next_addr st"
    using st' by simp_all
  show "dom (link_at st') = dom (link_at st)" using st' l by auto
  show "\<exists>ro. robot_at st r2 = Some ro \<and> i < length (ro_links ro) \<and>
          (\<forall>a. a \<noteq> ro_links ro ! i \<longrightarrow> link_at st' a = link_at st a)"
    using ro i st' by simp
qed

lemma perturb_link_total:
  assumes "robot_at st r2 = Some ro" "set (ro_links ro) \<subseteq> dom (link_at st)" "i < length (ro_links ro)"
  shows "\<exists>st'. perturb_link rand p r2 i st = Some st'"
proof -
  have "ro_links ro ! i \<in> dom (link_at st)" using assms(2,3) nth_mem by blast
  then obtain l where "link_at st (ro_links ro ! i) = Some l" by blast
  then show ?thesis using assms(1,3) by (simp add: perturb_link_def Let_def)
qed

lemma perturb_loop_props:
  assumes "perturb_loop rand p r2 js st = Some st'" "robot_at st r2 = Some ro"
    "\<forall>b \<in> set (ro_links ro). base \<le> b"
  shows "robot_at st' = robot_at st \<and> array_at st' = array_at st \<and> next_addr st' = next_addr st \<and>
         dom (link_at st') = dom (link_at st) \<and> (\<forall>a<base. link_at st' a = link_at st a)"
  using assms
proof (induction js arbitrary: st)
  case Nil
  then show ?case by simp
next
  case (Cons i js)
  obtain st1 where h: "perturb_link rand p r2 i st = Some st1"
    using Cons.prems(1) by (auto split: option.splits)
  have t: "perturb_loop rand p r2 js st1 = Some st'" using Cons.prems(1) h by simp
  note H = perturb_link_props[OF h]
  have ro1: "robot_at st1 r2 = Some ro" using H(1) Cons.prems(2) by simp
  note IH = Cons.IH[OF t ro1 Cons.prems(3)]
  have i: "i < length (ro_links ro)" and
    oth: "\<forall>a. a \<noteq> ro_links ro ! i \<longrightarrow> link_at st1 a = link_at st a"
    using H(5) Cons.prems(2) by auto
  have "base \<le> ro_links ro ! i" using i Cons.prems(3) nth_mem by blast
  then have low: "\<forall>a<base. link_at st1 a = link_at st a" using oth by auto
  show ?case using IH H(1-4) low by simp
qed

lemma perturb_loop_total:
  assumes "robot_at st r2 = Some ro" "set (ro_links ro) \<subseteq> dom (link_at st)"
    "\<forall>i \<in> set js. i < length (ro_links ro)"
  shows "\<exists>st'. perturb_loop rand p r2 js st = Some st'"
  using assms
proof (induction js arbitrary: st)
  case Nil
  then show ?case by simp
next
  case (Cons i js)
  have "i < length (ro_links ro)" using Cons.prems(3) by simp
  then obtain st1 where h: "perturb_link rand p r2 i st = Some st1"
    using perturb_link_total[OF Cons.prems(1,2)] by blast
  note H = perturb_link_props[OF h]
  have ro1: "robot_at st1 r2 = Some ro" using H(1) Cons.prems(1) by simp
  have d: "set (ro_links ro) \<subseteq> dom (link_at st1)" using H(4) Cons.prems(2) by simp
  have "\<forall>i \<in> set js. i < length (ro_links ro)" using Cons.prems(3) by simp
  then obtain st' where "perturb_loop rand p r2 js st1 = Some st'"
    using Cons.IH[OF ro1 d] by blast
  then show ?case using h by simp
qed

lemma fresh_copyI:
  assumes "wf_store st" "grows st st'" "next_addr st \<le> r" "robot_at st' r = Some ro"
    "\<forall>b \<in> set (ro_links ro). next_addr st \<le> b \<and> b \<in> dom (link_at st')"
  shows "fresh_copy st st' r"
proof -
  have u: "unchanged st st'" using grows_unchanged[OF assms(1,2)] .
  have r: "r \<notin> dom (robot_at st)"
  proof
    assume "r \<in> dom (robot_at st)"
    then obtain y where "robot_at st r = Some y" by blast
    then have "r < next_addr st" using wf_robotD[OF assms(1)] by blast
    then show False using assms(3) by simp
  qed
  have d: "set (ro_links ro) \<inter> dom (link_at st) = {}"
  proof (rule ccontr)
    assume "set (ro_links ro) \<inter> dom (link_at st) \<noteq> {}"
    then obtain b y where b: "b \<in> set (ro_links ro)" and "link_at st b = Some y" by blast
    then have "b < next_addr st" using wf_linkD[OF assms(1)] by blast
    then show False using assms(5) b by auto
  qed
  have s: "set (ro_links ro) \<subseteq> dom (link_at st')" using assms(5) by blast
  show ?thesis unfolding fresh_copy_def using u r d s assms(4) by simp
qed

lemma nofriction_obj_frame:
  assumes wf: "wf_store st" and v: "valid_robot st self"
  shows "\<exists>nf st'. nofriction_obj self coulomb viscous st = Some (nf, st') \<and> fresh_copy st st' nf"
proof -
  obtain ro where ro: "robot_at st self = Some ro" and ls: "set (ro_links ro) \<subseteq> dom (link_at st)"
    using v by (auto simp: valid_robot_def split: option.splits)
  obtain nf st1 where n: "new_robot ro st = (nf, st1)" by (cases "new_robot ro st")
  note N = new_robot_props[OF n]
  define st2 where "st2 = st1\<lparr>robot_at := (robot_at st1)(nf \<mapsto> ro\<lparr>ro_name := ''NF/'' @ ro_name ro\<rparr>)\<rparr>"
  have g2: "grows st st2" unfolding st2_def using grows_set_robot[OF N(3)] N(1) by simp
  have l2: "link_at st2 = link_at st" unfolding st2_def using N(5) by simp
  have n2: "next_addr st2 = Suc (next_addr st)" unfolding st2_def using N(2) by simp
  have r2: "robot_at st2 nf = Some (ro\<lparr>ro_name := ''NF/'' @ ro_name ro\<rparr>)" unfolding st2_def by simp
  have "set (ro_links ro) \<subseteq> dom (link_at st2)" using ls l2 by simp
  then obtain bs st3 where t: "nofriction_links coulomb viscous (ro_links ro) st2 = Some (bs, st3)"
    using nofriction_links_total by (metis surj_pair)
  note T = nofriction_links_props[OF t]
  have r3: "robot_at st3 nf = Some (ro\<lparr>ro_name := ''NF/'' @ ro_name ro\<rparr>)" using T r2 by simp
  define nfo where "nfo = (ro\<lparr>ro_name := ''NF/'' @ ro_name ro\<rparr>)\<lparr>ro_links := bs\<rparr>"
  define st4 where "st4 = st3\<lparr>robot_at := (robot_at st3)(nf \<mapsto> nfo)\<rparr>"
  have res: "nofriction_obj self coulomb viscous st = Some (nf, st4)"
    unfolding nofriction_obj_def st4_def nfo_def using ro n t r3 by (simp add: st2_def)
  have g3: "grows st st3" using g2 T grows_trans by blast
  have g4: "grows st st4" unfolding st4_def using grows_set_robot[OF g3] N(1) by simp
  have r4: "robot_at st4 nf = Some nfo" unfolding st4_def by simp
  have "\<forall>b \<in> set bs. next_addr st \<le> b \<and> b \<in> dom (link_at st4)"
    using T n2 unfolding st4_def by auto
  then have b4: "\<forall>b \<in> set (ro_links nfo). next_addr st \<le> b \<and> b \<in> dom (link_at st4)"
    unfolding nfo_def by simp
  have "next_addr st \<le> nf" using N(1) by simp
  then have "fresh_copy st st4 nf" using fresh_copyI[OF wf g4 _ r4 b4] by blast
  then show ?thesis using res by blast
qed

lemma robot_copy_props:
  assumes ro: "robot_at st self = Some ro" and ls: "set (ro_links ro) \<subseteq> dom (link_at st)"
    and ga: "ro_gravity ro \<in> dom (array_at st)" and qa: "ro_q ro \<in> dom (array_at st)"
  shows "\<exists>r2 st' r2o. robot_copy self st = Some (r2, st') \<and> grows st st' \<and> next_addr st \<le> r2 \<and>
           robot_at st' r2 = Some r2o \<and> length (ro_links r2o) = length (ro_links ro) \<and>
           (\<forall>b \<in> set (ro_links r2o). next_addr st \<le> b \<and> b \<in> dom (link_at st'))"
proof -
  obtain g where g: "array_at st (ro_gravity ro) = Some g" using ga by blast
  obtain q where q: "array_at st (ro_q ro) = Some q" using qa by blast
  obtain bs st1 where c: "copy_links (ro_links ro) st = Some (bs, st1)"
    using copy_links_total[OF ls] by (metis surj_pair)
  note C = copy_links_props[OF c]
  obtain a1 st2 where n1: "new_array g st1 = (a1, st2)" by (cases "new_array g st1")
  note N1 = new_array_props[OF n1]
  obtain a2 st3 where n2: "new_array q st2 = (a2, st3)" by (cases "new_array q st2")
  note N2 = new_array_props[OF n2]
  define r2o where "r2o = \<lparr>ro_name = ro_name ro, ro_links = bs, ro_gravity = a1, ro_q = a2\<rparr>"
  obtain r2 st4 where n3: "new_robot r2o st3 = (r2, st4)" by (cases "new_robot r2o st3")
  note N3 = new_robot_props[OF n3]
  have res: "robot_copy self st = Some (r2, st4)"
    unfolding robot_copy_def using ro g q c n1 n2 n3 by (simp add: r2o_def)
  have g4: "grows st st4" using C N1(3) N2(3) N3(3) grows_trans by blast
  have le: "next_addr st \<le> r2" using C N1(2) N2(2) N3(1) by simp
  have l4: "link_at st4 = link_at st1" using N1(5) N2(5) N3(5) by simp
  have b: "\<forall>b \<in> set (ro_links r2o). next_addr st \<le> b \<and> b \<in> dom (link_at st4)"
    using C l4 by (simp add: r2o_def)
  have len: "length (ro_links r2o) = length (ro_links ro)" using C by (simp add: r2o_def)
  show ?thesis using res g4 le N3(4) len b by blast
qed

lemma grows_links:
  assumes "grows st st1" "robot_at st2 = robot_at st1" "array_at st2 = array_at st1"
    "next_addr st2 = next_addr st1" "\<forall>a<next_addr st. link_at st2 a = link_at st1 a"
  shows "grows st st2"
  using assms by (simp add: grows_def)

lemma perterb_obj_frame:
  assumes wf: "wf_store st" and v: "valid_robot st self"
  shows "\<exists>r2 st'. perterb_obj rand self p st = Some (r2, st') \<and> fresh_copy st st' r2"
proof -
  obtain ro where ro: "robot_at st self = Some ro" and ls: "set (ro_links ro) \<subseteq> dom (link_at st)"
    and ga: "ro_gravity ro \<in> dom (array_at st)" and qa: "ro_q ro \<in> dom (array_at st)"
    using v by (auto simp: valid_robot_def split: option.splits)
  obtain r2 st1 r2o where c: "robot_copy self st = Some (r2, st1)" and g1: "grows st st1"
    and le: "next_addr st \<le> r2" and r1: "robot_at st1 r2 = Some r2o"
    and len: "length (ro_links r2o) = length (ro_links ro)"
    and b1: "\<forall>b \<in> set (ro_links r2o). next_addr st \<le> b \<and> b \<in> dom (link_at st1)"
    using robot_copy_props[OF ro ls ga qa] by blast
  define r2n where "r2n = r2o\<lparr>ro_name := ''P/'' @ ro_name ro\<rparr>"
  define st2 where "st2 = st1\<lparr>robot_at := (robot_at st1)(r2 \<mapsto> r2n)\<rparr>"
  have g2: "grows st st2" unfolding st2_def using grows_set_robot[OF g1 le] .
  have r2: "robot_at st2 r2 = Some r2n" unfolding st2_def by simp
  have d2: "set (ro_links r2n) \<subseteq> dom (link_at st2)" unfolding st2_def r2n_def using b1 by auto
  have i2: "\<forall>i \<in> set [0..<length (ro_links ro)]. i < length (ro_links r2n)"
    unfolding r2n_def using len by simp
  obtain st3 where lp: "perturb_loop rand p r2 [0..<length (ro_links ro)] st2 = Some st3"
    using perturb_loop_total[OF r2 d2 i2] by blast
  have base: "\<forall>b \<in> set (ro_links r2n). next_addr st \<le> b" unfolding r2n_def using b1 by simp
  note L = perturb_loop_props[OF lp r2 base]
  have res: "perterb_obj rand self p st = Some (r2, st3)"
    unfolding perterb_obj_def using ro c r1 lp by (simp add: st2_def r2n_def)
  have g3: "grows st st3" using grows_links[OF g2] L by blast
  have r3: "robot_at st3 r2 = Some r2n" using L r2 by simp
  have b3: "\<forall>b \<in> set (ro_links r2n). next_addr st \<le> b \<and> b \<in> dom (link_at st3)"
    using base d2 L by auto
  have "fresh_copy st st3 r2" using fresh_copyI[OF wf g3 le r3 b3] .
  then show ?thesis using res by blast
qed

lemma ex_store_wf: "wf_store ex_store"
  unfolding wf_store_def ex_store_def by (auto split: if_splits)

lemma ex_store_valid: "valid_robot ex_store 4"
  by (simp add: valid_robot_def ex_store_def)

text \<open>
  Claim C9. For every robot object \<open>self\<close> of a well-formed store, whose links and arrays are
  in the store, \<^verbatim>\<open>nofriction(coulomb, viscous)\<close> and \<^verbatim>\<open>perterb(p)\<close> both return: each gives
  the address of a robot object that did not exist before, every object that existed before
  (so the source robot, each of its links with its mass, inertia, friction coefficients and
  other parameters, and its arrays) is exactly as it was, and all the links of the returned
  robot are link objects that did not exist before, so that the copy shares no link with
  the source. For \<^verbatim>\<open>perterb\<close> this holds for every sequence \<open>rand\<close> of random numbers.
  \<^verbatim>\<open>Link.nofriction\<close> and \<^verbatim>\<open>Robot._copy\<close> are as the specification describes them. The
  robot returned by \<^verbatim>\<open>nofriction\<close> is a \<^verbatim>\<open>copy.copy\<close> of the source: it does share the
  gravity and joint-state arrays of the source, which are not link state.
\<close>
theorem variants_leave_source_untouched:
  assumes wf: "wf_store st" and v: "valid_robot st self"
  shows "(\<exists>nf st'. nofriction_obj self coulomb viscous st = Some (nf, st') \<and> fresh_copy st st' nf \<and>
            robot_at st' self = robot_at st self \<and>
            (\<forall>a \<in> dom (link_at st). link_at st' a = link_at st a)) \<and>
         (\<exists>r2 st'. perterb_obj rand self p st = Some (r2, st') \<and> fresh_copy st st' r2 \<and>
            robot_at st' self = robot_at st self \<and>
            (\<forall>a \<in> dom (link_at st). link_at st' a = link_at st a))"
proof -
  have s: "self \<in> dom (robot_at st)"
    using v by (auto simp: valid_robot_def split: option.splits)
  have u: "fresh_copy st st' r \<Longrightarrow> robot_at st' self = robot_at st self \<and>
            (\<forall>a \<in> dom (link_at st). link_at st' a = link_at st a)" for st' r
    using s unfolding fresh_copy_def unchanged_def by blast
  show ?thesis
    using nofriction_obj_frame[OF wf v, of coulomb viscous] perterb_obj_frame[OF wf v, of rand p] u
    by blast
qed

theorem variants_leave_source_untouched_witness:
  "wf_store ex_store \<and> valid_robot ex_store 4 \<and>
   (\<exists>nf st'. nofriction_obj 4 True True ex_store = Some (nf, st') \<and> fresh_copy ex_store st' nf \<and>
      robot_at st' 4 = robot_at ex_store 4 \<and>
      (\<forall>a \<in> dom (link_at ex_store). link_at st' a = link_at ex_store a)) \<and>
   (\<exists>r2 st'. perterb_obj (\<lambda>i. 1 / 4) 4 (1 / 10) ex_store = Some (r2, st') \<and>
      fresh_copy ex_store st' r2 \<and> robot_at st' 4 = robot_at ex_store 4 \<and>
      (\<forall>a \<in> dom (link_at ex_store). link_at st' a = link_at ex_store a))"
  using variants_leave_source_untouched [OF ex_store_wf ex_store_valid, of True True "\<lambda>i. 1 / 4" "1 / 10"]
    ex_store_wf ex_store_valid
  by simp

section \<open>The first sample of the trajectory\<close>

lemma fdyn_setup_x0:
  assumes "fdyn_setup solvers rne linalg_inv rob T q0 torqfun qd0 solver = Inr (integ, s0, x0)"
    and "getvector q0 (n_of rob) = Inr q0v"
    and "(case qd0 of None \<Rightarrow> Inr (zeros (n_of rob)) | Some a \<Rightarrow> getvector a (n_of rob)) = Inr qd0v"
  shows "x0 = q0v @ qd0v"
proof (cases "solvers solver")
  case None
  then show ?thesis using assms by (simp add: fdyn_setup_def Let_def split: if_splits)
next
  case (Some integ')
  then show ?thesis using assms
    by (cases "run (deriv_fun rne linalg_inv rob torqfun) (solver_init integ' 0 (q0v @ qd0v) T)")
       (simp_all add: fdyn_setup_def Let_def split: if_splits)
qed

lemma fdyn_samples_head:
  assumes "fdyn_samples solvers rne linalg_inv rob T q0 torqfun qd0 solver = Some (Inr (tarray, xarray))"
    and "getvector q0 (n_of rob) = Inr q0v"
    and "(case qd0 of None \<Rightarrow> Inr (zeros (n_of rob)) | Some a \<Rightarrow> getvector a (n_of rob)) = Inr qd0v"
  shows "\<exists>ta xa. tarray = 0 # ta \<and> xarray = (q0v @ qd0v) # xa"
proof (cases "fdyn_setup solvers rne linalg_inv rob T q0 torqfun qd0 solver")
  case (Inl e)
  then show ?thesis using assms(1) by (simp add: fdyn_samples_def)
next
  case (Inr c)
  obtain integ s0 x0 where c: "c = (integ, s0, x0)" by (cases c)
  have x0: "x0 = q0v @ qd0v" using fdyn_setup_x0[OF Inr[unfolded c] assms(2,3)] .
  have "fdyn_loop integ (deriv_fun rne linalg_inv rob torqfun) s0 [0] [x0] = Some (Inr (tarray, xarray))"
    using assms(1) Inr c by (simp add: fdyn_samples_def)
  from fdyn_loop_prefix[OF this] x0 show ?thesis by simp
qed

lemma map2_snd: "length a = length b \<Longrightarrow> map2 (\<lambda>s y. y) a b = b"
  by (induction a b rule: list_induct2) simp_all

lemma interp_at_first:
  assumes "pts = (t0, x0) # (t1, x1) # rest" "length x1 = length x0"
  shows "interp_at pts t0 = Inr x0"
proof -
  have mem: "t0 \<in> set (map fst pts)" using assms(1) by simp
  have lo: "\<not> t0 < Min (set (map fst pts))" using Min_le[OF _ mem] by simp
  have hi: "\<not> Max (set (map fst pts)) < t0" using Max_ge[OF _ mem] by simp
  have ss: "searchsorted (map fst pts) t0 = 0" using assms(1) by (simp add: searchsorted_def)
  have h: "max 1 (min (length pts - 1) (searchsorted (map fst pts) t0)) = 1" using ss by simp
  have "interp_at pts t0 =
        Inr (map2 (\<lambda>s y. s * (t0 - fst (pts ! (1 - 1))) + y)
              (map2 (\<lambda>a b. (a - b) / (fst (pts ! 1) - fst (pts ! (1 - 1))))
                 (snd (pts ! 1)) (snd (pts ! (1 - 1))))
              (snd (pts ! (1 - 1))))"
    unfolding interp_at_def Let_def h using lo hi by (simp only: if_False)
  also have "\<dots> = Inr x0"
    using assms by (simp add: map2_snd)
  finally show ?thesis .
qed

lemma interp1d_first:
  assumes "tarray = t0 # t1 # ta" "xarray = x0 # x1 # xa" "length tarray = length xarray"
    and "sorted tarray" "length x1 = length x0"
    and "interp1d tarray xarray (t0 # tn) = Inr xnew"
  shows "\<exists>xr. xnew = x0 # xr"
proof -
  let ?pts = "zip tarray xarray"
  have "map fst ?pts = tarray" using assms(3) by (simp only: map_fst_zip)
  then have "sorted (map fst ?pts)" using assms(4) by simp
  then have srt: "sort_key fst ?pts = ?pts" by (rule sort_key_id_if_sorted)
  have pts: "?pts = (t0, x0) # (t1, x1) # zip ta xa" using assms(1,2) by simp
  have first: "interp_at ?pts t0 = Inr x0" using interp_at_first[OF pts assms(5)] .
  have ne: "tarray \<noteq> []" using assms(1) by simp
  have "collect (map (interp_at ?pts) (t0 # tn)) = Inr xnew"
    using assms(3,6) ne by (simp add: interp1d_def srt)
  then have "ebind (collect (map (interp_at ?pts) tn)) (\<lambda>vs. Inr (x0 # vs)) = Inr xnew"
    using first by simp
  then show ?thesis
    by (cases "collect (map (interp_at ?pts) tn)") auto
qed

lemma arange_first:
  assumes "arange rnd 0 T d = Inr g" "0 < rnd (rnd T / d)"
  shows "\<exists>gr. g = 0 # gr"
proof -
  have d: "d \<noteq> 0" using assms(1) by (auto simp: arange_def)
  have "0 < \<lceil>rnd (rnd T / d)\<rceil>" using assms(2) by simp
  then obtain k where k: "nat \<lceil>rnd (rnd T / d)\<rceil> = Suc k"
    by (cases "nat \<lceil>rnd (rnd T / d)\<rceil>") auto
  have "[0..<Suc k] = 0 # [Suc 0..<Suc k]" by (simp add: upt_conv_Cons)
  then have "arange rnd 0 T d =
      Inr (0 # map (\<lambda>i. if i = 0 then 0 else if i = 1 then rnd (0 + d)
                            else rnd (0 + rnd (real i * rnd (rnd (0 + d) - 0))))
                 [Suc 0..<Suc k])"
    using d k by (simp add: arange_def Let_def del: upt_Suc)
  then show ?thesis using assms(1) by auto
qed

text \<open>
  Claim C10, with the hypotheses under which it holds. When \<^verbatim>\<open>fdyn\<close> returns a trajectory
  without resampling, its first sample is at time 0 with the joint coordinates \<open>q0\<close> and the
  joint velocities \<open>qd0\<close>, the zero vector when none is given; this sample is put in the
  lists before the loop. With resampling the same holds when the grid is not empty (the
  quotient \<open>T / dt\<close> rounds to a positive number) and the integrator has made a step, the
  times of its samples increasing strictly.
\<close>
theorem fdyn_first_sample:
  assumes samples: "fdyn_samples solvers rne linalg_inv rob T q0 torqfun qd0 solver = Some (Inr (tarray, xarray))"
    and res: "fdyn rnd solvers rne linalg_inv rob T q0 torqfun qd0 solver dt = Some (Inr traj)"
    and q0: "getvector q0 (n_of rob) = Inr q0v" and lq0: "length q0v = n_of rob"
    and qd0: "(case qd0 of None \<Rightarrow> Inr (zeros (n_of rob)) | Some a \<Rightarrow> getvector a (n_of rob)) = Inr qd0v"
    and grid: "case dt of None \<Rightarrow> True
               | Some d \<Rightarrow> 0 < rnd (rnd T / d) \<and> sorted_wrt (<) tarray \<and> 2 \<le> length tarray"
  shows "traj_t traj \<noteq> [] \<and> hd (traj_t traj) = 0 \<and> hd (traj_q traj) = q0v \<and>
         hd (traj_qd traj) = qd0v"
proof -
  obtain ta xa where ht: "tarray = 0 # ta" and hx: "xarray = (q0v @ qd0v) # xa"
    using fdyn_samples_head[OF samples q0 qd0] by blast
  have rect: "list_all (\<lambda>x. length x = length (hd xarray)) xarray"
  proof (rule ccontr)
    assume "\<not> list_all (\<lambda>x. length x = length (hd xarray)) xarray"
    then show False using res by (simp add: fdyn_of_samples[OF samples])
  qed
  show ?thesis
  proof (cases dt)
    case None
    then have "traj = \<lparr>traj_t = tarray, traj_q = map (take (n_of rob)) xarray,
                         traj_qd = map (drop (n_of rob)) xarray\<rparr>"
      using res rect by (simp add: fdyn_of_samples[OF samples])
    then show ?thesis using ht hx lq0 by simp
  next
    case (Some d)
    have e: "ebind (arange rnd 0 T d) (\<lambda>tnew.
               ebind (interp1d tarray xarray tnew) (\<lambda>xnew.
                 Inr \<lparr>traj_t = tnew, traj_q = map (take (n_of rob)) xnew,
                      traj_qd = map (drop (n_of rob)) xnew\<rparr>)) = Inr traj"
      using res rect Some by (simp add: fdyn_of_samples[OF samples])
    obtain g where g: "arange rnd 0 T d = Inr g"
    proof (cases "arange rnd 0 T d")
      case (Inl err)
      then show ?thesis using e by simp
    next
      case (Inr g)
      then show ?thesis using that by simp
    qed
    have e2: "ebind (interp1d tarray xarray g) (\<lambda>xnew.
                 Inr \<lparr>traj_t = g, traj_q = map (take (n_of rob)) xnew,
                      traj_qd = map (drop (n_of rob)) xnew\<rparr>) = Inr traj"
      using e g by simp
    obtain xnew where x: "interp1d tarray xarray g = Inr xnew"
      and t: "traj = \<lparr>traj_t = g, traj_q = map (take (n_of rob)) xnew,
                    traj_qd = map (drop (n_of rob)) xnew\<rparr>"
    proof (cases "interp1d tarray xarray g")
      case (Inl err)
      then show ?thesis using e2 by simp
    next
      case (Inr xnew)
      then show ?thesis using e2 that by simp
    qed
    have pos: "0 < rnd (rnd T / d)" and strict: "sorted_wrt (<) tarray" and two: "2 \<le> length tarray"
      using grid Some by simp_all
    obtain gr where gr: "g = 0 # gr" using arange_first[OF g pos] by blast
    have len: "length tarray = length xarray"
    proof (rule ccontr)
      assume "length tarray \<noteq> length xarray"
      then have "\<exists>err. interp1d tarray xarray g = Inl err" by (simp add: interp1d_def)
      then show False using x by auto
    qed
    obtain t1 ta' where ta: "ta = t1 # ta'" using two ht by (cases ta) auto
    obtain x1 xa' where xa: "xa = x1 # xa'" using two ht hx len by (cases xa) auto
    have l1: "length x1 = length (q0v @ qd0v)" using rect hx xa by simp
    have srt: "sorted tarray" using strict by (rule strict_sorted_imp_sorted)
    obtain xr where xr: "xnew = (q0v @ qd0v) # xr"
      using interp1d_first[OF ht[unfolded ta] hx[unfolded xa] _ _ l1, of tn xnew for tn]
        len srt x gr ht ta hx xa by blast
    show ?thesis using t gr xr lq0 by simp
  qed
qed

theorem fdyn_first_sample_witness:
  "fdyn (\<lambda>x. x) (ex_solvers 10) ex_rne inv2 ex_robot 1 (Vec [1, 0]) NoTorque None ''RK45'' (Some (2 / 5)) =
     Some (Inr \<lparr>traj_t = [0, 2 / 5, 4 / 5],
            traj_q = [[1, 0], [1, 0], [- (1 / 2), - (3 / 2)]],
            traj_qd = [[0, 0], [- 4, - 4], [- 11, - (55 / 8)]]\<rparr>) \<and>
   hd (traj_t \<lparr>traj_t = [0, 2 / 5, 4 / 5],
            traj_q = [[1, 0], [1, 0], [- (1 / 2), - (3 / 2)]],
            traj_qd = [[0, 0], [- 4, - 4], [- 11, - (55 / 8)]]\<rparr>) = 0 \<and>
   hd (traj_q \<lparr>traj_t = [0, 2 / 5, 4 / 5],
            traj_q = [[1, 0], [1, 0], [- (1 / 2), - (3 / 2)]],
            traj_qd = [[0, 0], [- 4, - 4], [- 11, - (55 / 8)]]\<rparr>) = [1, 0] \<and>
   hd (traj_qd \<lparr>traj_t = [0, 2 / 5, 4 / 5],
            traj_q = [[1, 0], [1, 0], [- (1 / 2), - (3 / 2)]],
            traj_qd = [[0, 0], [- 4, - 4], [- 11, - (55 / 8)]]\<rparr>) = zeros 2"
proof -
  have s: "fdyn_samples (ex_solvers 10) ex_rne inv2 ex_robot 1 (Vec [1, 0]) NoTorque None ''RK45'' =
     Some (Inr ([0, 1 / 2, 1], [[1, 0, 0, 0], [1, 0, - 5, - 5], [- (3 / 2), - (5 / 2), - 15, - (65 / 8)]]))"
    by code_simp
  have f: "fdyn (\<lambda>x. x) (ex_solvers 10) ex_rne inv2 ex_robot 1 (Vec [1, 0]) NoTorque None ''RK45'' (Some (2 / 5)) =
     Some (Inr \<lparr>traj_t = [0, 2 / 5, 4 / 5],
            traj_q = [[1, 0], [1, 0], [- (1 / 2), - (3 / 2)]],
            traj_qd = [[0, 0], [- 4, - 4], [- 11, - (55 / 8)]]\<rparr>)"
    by code_simp
  have q0: "getvector (Vec [1, 0]) (n_of ex_robot) = Inr [1, 0]" by (simp add: n_ex)
  have lq0: "length [1::real, 0] = n_of ex_robot" by (simp add: n_ex)
  have qd0: "(case None :: ndarray option of None \<Rightarrow> Inr (zeros (n_of ex_robot))
              | Some a \<Rightarrow> getvector a (n_of ex_robot)) = Inr (zeros 2)"
    by (simp add: n_ex)
  have grid: "case Some (2 / 5 :: real) of None \<Rightarrow> True
      | Some d \<Rightarrow> 0 < (\<lambda>x. x) ((\<lambda>x. x) 1 / d) \<and> sorted_wrt (<) [0, 1 / 2, 1 :: real] \<and>
          2 \<le> length [0, 1 / 2, 1 :: real]"
    by simp
  show ?thesis
    using fdyn_first_sample [OF s f q0 lq0 qd0 grid] f by blast
qed

text \<open>
  A resampled trajectory can be empty: for \<open>T = 0\<close> the loop ends after one step with the
  samples of times \<open>0, 0\<close>, and \<^verbatim>\<open>np.arange(0, 0, dt)\<close> has no time at all.
\<close>
theorem fdyn_empty_trajectory_counterexample:
  "fdyn (\<lambda>x. x) (ex_solvers 10) ex_rne inv2 ex_robot 0 (Vec [1, 0]) NoTorque None ''RK45'' (Some (2 / 5)) =
     Some (Inr \<lparr>traj_t = [], traj_q = [], traj_qd = []\<rparr>)"
  by code_simp

end
